theory Spec2Isabelle
  imports Complex_Main "HOL-Library.Multiset"
begin

section \<open>Holes and seam lengths (detection.py)\<close>

text \<open>
  A hole is the Python tuple \<open>((x, y), width, height)\<close>: an integer centre and two
  floats. Floats are modelled as reals, so \<open>np.hypot\<close> is the exact Euclidean norm and
  rounding errors of IEEE arithmetic are outside the model.
\<close>

type_synonym point = "int \<times> int"
type_synonym hole = "point \<times> real \<times> real"

definition centre :: "hole \<Rightarrow> point" where
  "centre h = fst h"

definition hx :: "hole \<Rightarrow> int" where
  "hx h = fst (fst h)"

definition hy :: "hole \<Rightarrow> int" where
  "hy h = snd (fst h)"

definition width :: "hole \<Rightarrow> real" where
  "width h = fst (snd h)"

definition height :: "hole \<Rightarrow> real" where
  "height h = snd (snd h)"

text \<open>The local function \<open>distance(p1, p2) = np.hypot(p2[0] - p1[0], p2[1] - p1[1])\<close>.\<close>

definition distance :: "point \<Rightarrow> point \<Rightarrow> real" where
  "distance p1 p2 =
     sqrt ((real_of_int (fst p2 - fst p1))\<^sup>2 + (real_of_int (snd p2 - snd p1))\<^sup>2)"

text \<open>
  \<open>calculate_seam_lengths\<close>. Python's \<open>sorted(xs, key=f)\<close> is a stable sort, and so is
  \<open>sort_key f xs\<close>; the slice \<open>holes_by_y[2:4]\<close> is \<open>take 2 (drop 2 holes_by_y)\<close>.
  The indexed reads \<open>top_row[0]\<close>, \<open>top_row[1]\<close>, \<open>bottom_row[0]\<close>, \<open>bottom_row[1]\<close>
  happen only behind the guard \<open>len(holes) < 4\<close>, where both rows have two elements.
\<close>

definition top_row :: "hole list \<Rightarrow> hole list" where
  "top_row holes = sort_key hx (take 2 (sort_key hy holes))"

definition bottom_row :: "hole list \<Rightarrow> hole list" where
  "bottom_row holes = sort_key hx (take 2 (drop 2 (sort_key hy holes)))"

definition calculate_seam_lengths :: "hole list \<Rightarrow> real \<times> real \<times> real \<times> real" where
  "calculate_seam_lengths holes =
     (if length holes < 4 then (0, 0, 0, 0)
      else
        let rad_top_left = width (top_row holes ! 0) / 2;
            rad_top_right = width (top_row holes ! 1) / 2;
            rad_bot_left = width (bottom_row holes ! 0) / 2;
            rad_bot_right = width (bottom_row holes ! 1) / 2;
            len_top = distance (centre (top_row holes ! 0)) (centre (top_row holes ! 1))
                        - (rad_top_left + rad_top_right);
            len_bottom = distance (centre (bottom_row holes ! 0)) (centre (bottom_row holes ! 1))
                        - (rad_bot_left + rad_bot_right);
            len_left = distance (centre (top_row holes ! 0)) (centre (bottom_row holes ! 0))
                        - (rad_top_left + rad_bot_left);
            len_right = distance (centre (top_row holes ! 1)) (centre (bottom_row holes ! 1))
                        - (rad_top_right + rad_bot_right)
        in (len_top, len_bottom, len_left, len_right))"

text \<open>Translating every hole centre by the vector \<open>(dx, dy)\<close>.\<close>

definition translate :: "int \<Rightarrow> int \<Rightarrow> hole \<Rightarrow> hole" where
  "translate dx dy h = ((hx h + dx, hy h + dy), width h, height h)"

section \<open>Strings and paths (file_utils.py)\<close>

text \<open>
  Python's \<open>str(n)\<close> of an integer, as the f-strings of the program use it: the decimal
  digits, with a leading minus sign for a negative number.
\<close>

definition digit_char :: "nat \<Rightarrow> char" where
  "digit_char d = ''0123456789'' ! d"

fun str_nat :: "nat \<Rightarrow> string" where
  "str_nat n = (if n < 10 then [digit_char n] else str_nat (n div 10) @ [digit_char (n mod 10)])"

declare str_nat.simps [simp del]

definition str_int :: "int \<Rightarrow> string" where
  "str_int i = (if i < 0 then CHR ''-'' # str_nat (nat (- i)) else str_nat (nat i))"

text \<open>
  \<open>os.path.join(a, b)\<close> and \<open>os.path.splitext(p)\<close> of the POSIX flavour of the standard
  library: an absolute second component replaces the first; the extension starts at the
  last dot of the last path component, unless only dots precede it there. \<open>rfind\<close> is
  \<open>str.rfind\<close> for a single character (\<open>-1\<close> when it does not occur).
\<close>

definition path_join :: "string \<Rightarrow> string \<Rightarrow> string" where
  "path_join a b =
     (if b \<noteq> [] \<and> hd b = CHR ''/'' then b
      else if a = [] \<or> last a = CHR ''/'' then a @ b
      else a @ ''/'' @ b)"

fun rfind :: "char \<Rightarrow> string \<Rightarrow> int" where
  "rfind c [] = - 1"
| "rfind c (x # xs) =
     (let r = rfind c xs in if 0 \<le> r then r + 1 else if x = c then 0 else - 1)"

definition splitext :: "string \<Rightarrow> string \<times> string" where
  "splitext p =
     (let sepIndex = rfind CHR ''/'' p;
          dotIndex = rfind CHR ''.'' p
      in if sepIndex < dotIndex \<and>
            list_ex (\<lambda>i. p ! i \<noteq> CHR ''.'') [nat (sepIndex + 1) ..< nat dotIndex]
         then (take (nat dotIndex) p, drop (nat dotIndex) p)
         else (p, []))"

text \<open>
  The two names \<open>get_next_filename\<close> builds: \<open>base_name\<close> is the f-string
  \<open>{status}_{order_number}_{part_number}Count{counter}_CAM{cam_id}.jpg\<close>, and
  \<open>suffixed_path\<close> is \<open>os.path.join(directory, f"{name_without_ext}_{suffix}.jpg")\<close>.
\<close>

definition base_name :: "string \<Rightarrow> string \<Rightarrow> string \<Rightarrow> nat \<Rightarrow> int \<Rightarrow> string" where
  "base_name status order_number part_number counter cam_id =
     status @ ''_'' @ order_number @ ''_'' @ part_number @ ''Count'' @ str_nat counter
       @ ''_CAM'' @ str_int cam_id @ ''.jpg''"

definition suffixed_path :: "string \<Rightarrow> string \<Rightarrow> nat \<Rightarrow> string" where
  "suffixed_path directory name_without_ext suffix =
     path_join directory (name_without_ext @ ''_'' @ str_nat suffix @ ''.jpg'')"

text \<open>
  Distinct suffixes give distinct candidate paths. This is what makes the search loop of
  \<open>get_next_filename\<close> terminate on a file system with finitely many files.
\<close>

lemma digit_char_inj: "a < 10 \<Longrightarrow> b < 10 \<Longrightarrow> digit_char a = digit_char b \<Longrightarrow> a = b"
proof -
  assume "a < 10" "b < 10" "digit_char a = digit_char b"
  then have "a \<in> {0,1,2,3,4,5,6,7,8,9}" "b \<in> {0,1,2,3,4,5,6,7,8,9}" by auto
  with \<open>digit_char a = digit_char b\<close> show ?thesis
    by (auto simp: digit_char_def)
qed

lemma str_nat_nonempty: "str_nat n \<noteq> []"
  by (subst str_nat.simps) simp

lemma last_str_nat: "last (str_nat n) = digit_char (n mod 10)"
  by (subst str_nat.simps) simp

lemma str_nat_inj: "str_nat n = str_nat m \<Longrightarrow> n = m"
proof (induction n arbitrary: m rule: str_nat.induct)
  case (1 n)
  show ?case
  proof (cases "n < 10")
    case True
    then have n: "str_nat n = [digit_char n]" by (subst str_nat.simps) simp
    show ?thesis
    proof (cases "m < 10")
      case m: True
      then have "str_nat m = [digit_char m]" by (subst str_nat.simps) simp
      with n "1.prems" have "digit_char n = digit_char m" by simp
      with True m show ?thesis by (rule digit_char_inj)
    next
      case False
      then have "str_nat m = str_nat (m div 10) @ [digit_char (m mod 10)]"
        by (subst str_nat.simps) simp
      with n "1.prems" have "str_nat (m div 10) = []" by simp
      then show ?thesis by (simp add: str_nat_nonempty)
    qed
  next
    case False
    then have n: "str_nat n = str_nat (n div 10) @ [digit_char (n mod 10)]"
      by (subst str_nat.simps) simp
    show ?thesis
    proof (cases "m < 10")
      case True
      then have "str_nat m = [digit_char m]" by (subst str_nat.simps) simp
      with n "1.prems" have "str_nat (n div 10) = []" by simp
      then show ?thesis by (simp add: str_nat_nonempty)
    next
      case m: False
      then have "str_nat m = str_nat (m div 10) @ [digit_char (m mod 10)]"
        by (subst str_nat.simps) simp
      with n "1.prems" have e: "str_nat (n div 10) = str_nat (m div 10)"
        and d: "digit_char (n mod 10) = digit_char (m mod 10)" by simp_all
      from "1.IH" [OF False e] have q: "n div 10 = m div 10" .
      have r: "n mod 10 = m mod 10" by (rule digit_char_inj [OF _ _ d]) simp_all
      have "n = 10 * (n div 10) + n mod 10" by simp
      also have "\<dots> = 10 * (m div 10) + m mod 10" using q r by simp
      also have "\<dots> = m" by simp
      finally show ?thesis .
    qed
  qed
qed

lemma path_join_prefix:
  "\<exists>pre. \<forall>k. path_join d (n @ ''_'' @ str_nat k @ ''.jpg'') = pre @ n @ ''_'' @ str_nat k @ ''.jpg''"
proof (cases "n = []")
  case True
  then show ?thesis
    by (cases "d = [] \<or> last d = CHR ''/''") (auto simp: path_join_def intro: exI [of _ d] exI [of _ "d @ ''/''"])
next
  case False
  then have h: "\<And>k. hd (n @ ''_'' @ str_nat k @ ''.jpg'') = hd n" by simp
  show ?thesis
  proof (cases "hd n = CHR ''/''")
    case True
    with False h have "\<forall>k. path_join d (n @ ''_'' @ str_nat k @ ''.jpg'') = [] @ n @ ''_'' @ str_nat k @ ''.jpg''"
      by (simp add: path_join_def)
    then show ?thesis by blast
  next
    case nh: False
    show ?thesis
    proof (cases "d = [] \<or> last d = CHR ''/''")
      case True
      with nh False have "\<forall>k. path_join d (n @ ''_'' @ str_nat k @ ''.jpg'') = d @ n @ ''_'' @ str_nat k @ ''.jpg''"
        by (auto simp add: path_join_def)
      then show ?thesis by blast
    next
      case dd: False
      with nh False have "\<forall>k. path_join d (n @ ''_'' @ str_nat k @ ''.jpg'') = (d @ ''/'') @ n @ ''_'' @ str_nat k @ ''.jpg''"
        by (auto simp add: path_join_def)
      then show ?thesis by blast
    qed
  qed
qed

lemma suffixed_path_inj: "suffixed_path d n j = suffixed_path d n k \<Longrightarrow> j = k"
proof -
  assume a: "suffixed_path d n j = suffixed_path d n k"
  obtain pre where p: "\<And>k. path_join d (n @ ''_'' @ str_nat k @ ''.jpg'') = pre @ n @ ''_'' @ str_nat k @ ''.jpg''"
    using path_join_prefix by blast
  from a have "pre @ n @ ''_'' @ str_nat j @ ''.jpg'' = pre @ n @ ''_'' @ str_nat k @ ''.jpg''"
    by (simp only: suffixed_path_def p)
  then have "str_nat j @ ''.jpg'' = str_nat k @ ''.jpg''" by simp
  then have "str_nat j = str_nat k" by simp
  then show ?thesis by (rule str_nat_inj)
qed

text \<open>
  The file system is the finite list of the paths that exist; \<open>os.path.exists\<close> is
  membership. The \<open>while True\<close> loop of \<open>get_next_filename\<close> is the recursive function
  \<open>get_next_filename_loop\<close>; its termination proof counts the existing candidate paths
  with a suffix not yet tried.
\<close>

definition path_exists :: "string list \<Rightarrow> string \<Rightarrow> bool" where
  "path_exists files p = (p \<in> set files)"

function get_next_filename_loop :: "string list \<Rightarrow> string \<Rightarrow> string \<Rightarrow> nat \<Rightarrow> string" where
  "get_next_filename_loop files directory name_without_ext suffix =
     (if \<not> path_exists files (suffixed_path directory name_without_ext suffix)
      then suffixed_path directory name_without_ext suffix
      else get_next_filename_loop files directory name_without_ext (suffix + 1))"
  by pat_completeness auto
termination
proof (relation "measure (\<lambda>(files, d, n, k). card {p \<in> set files. \<exists>j\<ge>k. p = suffixed_path d n j})")
  show "wf (measure (\<lambda>(files, d, n, k). card {p \<in> set files. \<exists>j\<ge>k. p = suffixed_path d n j}))"
    by simp
next
  fix files :: "string list" and directory name_without_ext :: string and suffix :: nat
  assume "\<not> \<not> path_exists files (suffixed_path directory name_without_ext suffix)"
  then have inn: "suffixed_path directory name_without_ext suffix \<in> set files"
    by (simp add: path_exists_def)
  let ?A = "{p \<in> set files. \<exists>j\<ge>suffix. p = suffixed_path directory name_without_ext j}"
  let ?B = "{p \<in> set files. \<exists>j\<ge>suffix + 1. p = suffixed_path directory name_without_ext j}"
  have "?B \<subseteq> ?A"
  proof
    fix p assume "p \<in> ?B"
    then obtain j where j: "suffix + 1 \<le> j" "p = suffixed_path directory name_without_ext j"
      and p: "p \<in> set files" by blast
    from j have "suffix \<le> j" by simp
    with j p show "p \<in> ?A" by blast
  qed
  moreover have "suffixed_path directory name_without_ext suffix \<in> ?A" using inn by auto
  moreover have "suffixed_path directory name_without_ext suffix \<notin> ?B"
    using suffixed_path_inj by fastforce
  ultimately have "?B \<subset> ?A" by blast
  moreover have "finite ?A" by simp
  ultimately have "card ?B < card ?A" by (rule psubset_card_mono [rotated])
  then show "((files, directory, name_without_ext, suffix + 1), files, directory, name_without_ext, suffix)
       \<in> measure (\<lambda>(files, d, n, k). card {p \<in> set files. \<exists>j\<ge>k. p = suffixed_path d n j})"
    by simp
qed

declare get_next_filename_loop.simps [simp del]

definition get_next_filename ::
  "string list \<Rightarrow> string \<Rightarrow> string \<Rightarrow> string \<Rightarrow> string \<Rightarrow> nat \<Rightarrow> int \<Rightarrow> string" where
  "get_next_filename files directory status order_number part_number counter cam_id =
     (let base = base_name status order_number part_number counter cam_id;
          full_path = path_join directory base
      in if \<not> path_exists files full_path then full_path
         else get_next_filename_loop files directory (fst (splitext base)) 1)"

lemma rfind_ge: "- 1 \<le> rfind c xs"
  by (induction xs) (simp_all add: Let_def)

lemma rfind_less: "rfind c xs < int (length xs)"
  by (induction xs) (simp_all add: Let_def)

lemma rfind_append:
  "rfind c (xs @ ys) = (if 0 \<le> rfind c ys then int (length xs) + rfind c ys else rfind c xs)"
  using rfind_ge [of c ys] by (induction xs) (auto simp: Let_def)

lemma rfind_not_last: "xs \<noteq> [] \<Longrightarrow> last xs \<noteq> c \<Longrightarrow> rfind c xs < int (length xs) - 1"
proof (induction xs)
  case Nil
  then show ?case by simp
next
  case (Cons x xs)
  show ?case
  proof (cases "xs = []")
    case True
    with Cons.prems show ?thesis by simp
  next
    case False
    with Cons have "rfind c xs < int (length xs) - 1" by simp
    moreover have "0 < int (length xs)" using False by simp
    ultimately show ?thesis by (simp add: Let_def)
  qed
qed

lemma splitext_jpg:
  assumes "s \<noteq> []" "last s \<noteq> CHR ''/''" "last s \<noteq> CHR ''.''"
  shows "splitext (s @ ''.jpg'') = (s, ''.jpg'')"
proof -
  have dot: "rfind CHR ''.'' (s @ ''.jpg'') = int (length s)"
    by (simp add: rfind_append)
  have sep: "rfind CHR ''/'' (s @ ''.jpg'') = rfind CHR ''/'' s"
    by (simp add: rfind_append)
  have lt: "rfind CHR ''/'' s < int (length s) - 1"
    using assms by (simp add: rfind_not_last)
  have ge: "- 1 \<le> rfind CHR ''/'' s" by (rule rfind_ge)
  have len: "0 < length s" using assms by simp
  let ?i = "length s - 1"
  have "(s @ ''.jpg'') ! ?i = last s"
    using assms len by (simp add: nth_append last_conv_nth)
  then have ne: "(s @ ''.jpg'') ! ?i \<noteq> CHR ''.''" using assms by simp
  have "nat (rfind CHR ''/'' s + 1) \<le> ?i" using lt ge len by linarith
  then have mem: "?i \<in> set [nat (rfind CHR ''/'' s + 1) ..< length s]" using len by simp
  have ex: "list_ex (\<lambda>i. (s @ ''.jpg'') ! i \<noteq> CHR ''.'') [nat (rfind CHR ''/'' s + 1) ..< length s]"
    unfolding list_ex_iff using mem ne by blast
  have "rfind CHR ''/'' s < int (length s)" using lt by simp
  then show ?thesis
    using ex by (simp add: splitext_def dot sep)
qed

lemma digit_char_plain: "d < 10 \<Longrightarrow> digit_char d \<noteq> CHR ''/'' \<and> digit_char d \<noteq> CHR ''.''"
proof -
  assume "d < 10"
  then have "d \<in> {0,1,2,3,4,5,6,7,8,9}" by auto
  then show ?thesis by (auto simp: digit_char_def)
qed

lemma last_str_int: "last (str_int i) \<noteq> CHR ''/'' \<and> last (str_int i) \<noteq> CHR ''.''"
  by (simp add: str_int_def str_nat_nonempty last_str_nat digit_char_plain)

lemma str_int_nonempty: "str_int i \<noteq> []"
  by (simp add: str_int_def str_nat_nonempty)

text \<open>
  The stem that \<open>os.path.splitext(base_name)[0]\<close> yields for every base name: the base
  name without its final \<open>.jpg\<close> (lemma \<open>splitext_base_name\<close>).
\<close>

definition name_without_ext :: "string \<Rightarrow> string \<Rightarrow> string \<Rightarrow> nat \<Rightarrow> int \<Rightarrow> string" where
  "name_without_ext status order_number part_number counter cam_id =
     status @ ''_'' @ order_number @ ''_'' @ part_number @ ''Count'' @ str_nat counter
       @ ''_CAM'' @ str_int cam_id"

lemma base_name_ext:
  "base_name st ord part c cam = name_without_ext st ord part c cam @ ''.jpg''"
  by (simp add: base_name_def name_without_ext_def)

lemma splitext_base_name:
  "splitext (base_name st ord part c cam) = (name_without_ext st ord part c cam, ''.jpg'')"
proof -
  have l: "last (name_without_ext st ord part c cam) = last (str_int cam)"
    by (simp add: name_without_ext_def str_int_nonempty)
  have n: "name_without_ext st ord part c cam \<noteq> []"
    by (simp add: name_without_ext_def)
  show ?thesis
    unfolding base_name_ext
    by (rule splitext_jpg) (simp_all add: n l last_str_int)
qed

section \<open>Frames and feature extraction (detection.py)\<close>

text \<open>
  A frame is given by what the OpenCV calls of the detection module return on it: the mean
  grey value (\<open>gray.mean()\<close>), the circles of \<open>cv2.HoughCircles\<close> after rounding
  (\<open>None\<close> when there are none) and the areas of the external contours that
  \<open>detect_spatter\<close> iterates over. The code around these calls is modelled as written.
  Radii are bounded by \<open>maxRadius = 40\<close>, so \<open>r * 2\<close> does not wrap in 16 bits.
\<close>

record frame =
  gray_mean :: real
  hough_circles :: "(nat \<times> nat \<times> nat) list option"
  contour_areas :: "real list"

definition detect_part_presence :: "frame \<Rightarrow> real \<Rightarrow> bool" where
  "detect_part_presence gray mean_threshold = (gray_mean gray < mean_threshold)"

definition detect_holes :: "frame \<Rightarrow> hole list" where
  "detect_holes gray =
     (case hough_circles gray of
        None \<Rightarrow> []
      | Some circles \<Rightarrow>
          map (\<lambda>(x, y, r). ((int x, int y), real (r * 2), real (r * 2))) circles)"

definition detect_spatter :: "frame \<Rightarrow> nat" where
  "detect_spatter gray = length (filter (\<lambda>area. 3 < area \<and> area < 100) (contour_areas gray))"

section \<open>Configuration (config.py)\<close>

text \<open>
  The part-presence threshold and the spatter limit can be overridden from the
  environment, so they are fields of a record; \<open>Config\<close> holds the defaults. The
  expected hole count is a constant of the class.
\<close>

record config =
  PART_DETECTION_THRESHOLD :: real
  MAX_SPATTER_COUNT :: int

definition Config :: config where
  "Config = \<lparr>PART_DETECTION_THRESHOLD = 240, MAX_SPATTER_COUNT = 5\<rparr>"

definition EXPECTED_HOLE_COUNT :: nat where
  "EXPECTED_HOLE_COUNT = 4"

section \<open>The inspection session (main.py)\<close>

text \<open>
  A Python float is a finite number (a real here), \<open>nan\<close> or an infinity. A measurement
  value is classified by what \<open>float(val)\<close> does with it: it yields a finite float
  (\<open>PyFloat\<close>, also for an int or a numeric string), \<open>nan\<close> or \<open>inf\<close>/\<open>-inf\<close> (as for the
  floats themselves or the strings \<open>'nan'\<close>, \<open>'inf'\<close>), or it raises: \<open>TypeError\<close> for
  \<open>None\<close>, \<open>ValueError\<close> for a non-numeric string, \<open>OverflowError\<close> for an int too large
  for a float. \<open>ReadError\<close> stands for whatever \<open>pd.read_csv\<close> raises.
  \<open>round(x, 2)\<close> rounds a finite float to the nearest multiple of \<open>0.01\<close>, ties to even,
  and returns \<open>nan\<close> and the infinities as they are.
\<close>

datatype py_error = ValueError | TypeError | OverflowError | ReadError

datatype pyfloat = Finite real | NaN | Inf bool

datatype pyval = PyFloat real | PyNan | PyInf bool | PyRaises py_error

definition py_float :: "pyval \<Rightarrow> py_error + pyfloat" where
  "py_float v =
     (case v of
        PyFloat x \<Rightarrow> Inr (Finite x)
      | PyNan \<Rightarrow> Inr NaN
      | PyInf positive \<Rightarrow> Inr (Inf positive)
      | PyRaises e \<Rightarrow> Inl e)"

definition round_half_even :: "real \<Rightarrow> int" where
  "round_half_even y =
     (let f = \<lfloor>y\<rfloor>; d = y - of_int f
      in if d < 1 / 2 then f else if 1 / 2 < d then f + 1 else if even f then f else f + 1)"

definition py_round :: "real \<Rightarrow> nat \<Rightarrow> real" where
  "py_round x ndigits = of_int (round_half_even (x * 10 ^ ndigits)) / 10 ^ ndigits"

definition py_round_float :: "pyfloat \<Rightarrow> nat \<Rightarrow> pyfloat" where
  "py_round_float v ndigits =
     (case v of Finite x \<Rightarrow> Finite (py_round x ndigits) | NaN \<Rightarrow> NaN | Inf positive \<Rightarrow> Inf positive)"

text \<open>The values that \<open>float\<close> turns into a finite number.\<close>

definition float_accepts :: "pyval \<Rightarrow> bool" where
  "float_accepts v = (case v of PyFloat x \<Rightarrow> True | PyNan \<Rightarrow> False | PyInf b \<Rightarrow> False | PyRaises e \<Rightarrow> False)"

text \<open>
  The timestamp is kept as the two strings \<open>strftime("%Y-%m-%d")\<close> and
  \<open>strftime("%H:%M:%S")\<close> make of it. The result dictionary, a CSV row and the
  \<open>Inspector\<close> object are records. The inspector carries the part of the outside world it
  works on: \<open>files\<close>, the existing paths; \<open>csv_rows\<close>, the data rows stored in the order's
  CSV file, each given by the values whose text the file holds; and \<open>pd_read_csv\<close>, what
  \<open>pd.read_csv\<close> makes of a file holding given rows: the exception it raises, or the rows
  of the frame it builds. pandas infers the type of every column anew when it reads, so
  these rows can differ from the stored ones (a column of all-digit order numbers is read
  as integers and loses leading zeros; a cell such as \<open>NA\<close> is read as missing and is
  written back empty). A re-typed cell is given by the value whose text \<open>to_csv\<close> writes
  for it. Nothing is assumed about \<open>pd_read_csv\<close>. Logging and the pixels of the annotated
  image are not part of the model, and \<open>cv2.imwrite\<close> and \<open>to_csv\<close> are taken to succeed.
\<close>

type_synonym datetime = "string \<times> string"

record result =
  part_number :: string
  cam_id :: int
  status :: string
  measurements :: "pyval list"
  defects :: "string list"
  timestamp :: datetime
  image_path :: string

record csv_row =
  Number :: nat
  OK_NOK :: string
  Ordernumber :: string
  Counter :: nat
  Date :: string
  Time :: string
  Values :: "pyfloat list"
  User :: string

record inspector =
  user :: string
  order_number :: string
  ok_counter :: nat
  nok_counter :: nat
  order_dir :: string
  csv_path :: string
  files :: "string list"
  csv_rows :: "csv_row list"
  pd_read_csv :: "csv_row list \<Rightarrow> py_error + csv_row list"

definition Inspector_init ::
  "string \<Rightarrow> string \<Rightarrow> string \<Rightarrow> string list \<Rightarrow> csv_row list
     \<Rightarrow> (csv_row list \<Rightarrow> py_error + csv_row list) \<Rightarrow> inspector" where
  "Inspector_init usr order output_dir files0 rows0 reader =
     (let odir = path_join output_dir order;
          files1 = (if path_exists files0 odir then files0 else odir # files0);
          cpath = path_join odir (order @ ''.csv'')
      in \<lparr>user = usr, order_number = order, ok_counter = 0, nok_counter = 0,
          order_dir = odir, csv_path = cpath,
          files = (if path_exists files1 cpath then files1 else cpath # files1),
          csv_rows = (if path_exists files1 cpath then rows0 else []),
          pd_read_csv = reader\<rparr>)"

text \<open>
  The analysis part of \<open>process_and_save\<close> (everything before the counters are touched),
  one definition per block of the source: the loop over \<open>enumerate(holes[:4])\<close>, the
  missing-holes check, the seam measurement and the spatter check.
\<close>

definition record_hole :: "nat \<times> hole \<Rightarrow> pyval list \<Rightarrow> pyval list" where
  "record_hole ih m =
     (let idx = fst ih; w = width (snd ih); h = height (snd ih)
      in if idx < 2
         then (m[idx * 2 := PyFloat w])[idx * 2 + 1 := PyFloat h]
         else (m[6 + (idx - 2) * 2 := PyFloat w])[6 + (idx - 2) * 2 + 1 := PyFloat h])"

definition record_measurements :: "hole list \<Rightarrow> result \<Rightarrow> result" where
  "record_measurements holes res =
     res\<lparr>measurements := fold record_hole (enumerate 0 (take 4 holes)) (measurements res)\<rparr>"

definition check_missing_holes :: "hole list \<Rightarrow> result \<Rightarrow> result" where
  "check_missing_holes holes res =
     (if length holes < EXPECTED_HOLE_COUNT
      then res\<lparr>status := ''NOK'',
               defects := defects res @
                 [''Missing holes: expected '' @ str_nat EXPECTED_HOLE_COUNT @ '', found ''
                    @ str_nat (length holes)]\<rparr>
      else res)"

definition measure_seams :: "hole list \<Rightarrow> result \<Rightarrow> result" where
  "measure_seams holes res =
     (if 4 \<le> length holes
      then (case calculate_seam_lengths holes of
              (len_top, len_bottom, len_left, len_right) \<Rightarrow>
                res\<lparr>measurements :=
                  (measurements res)[4 := PyFloat len_top, 5 := PyFloat len_bottom,
                                     10 := PyFloat len_left, 11 := PyFloat len_right]\<rparr>)
      else res\<lparr>status := ''NOK'',
               defects := defects res @ [''Insufficient holes for weld measurement'']\<rparr>)"

definition check_spatter :: "config \<Rightarrow> nat \<Rightarrow> result \<Rightarrow> result" where
  "check_spatter cfg spatter_count res =
     (if MAX_SPATTER_COUNT cfg < int spatter_count
      then res\<lparr>status := ''NOK'',
               defects := defects res @
                 [''Excessive spatter: '' @ str_nat spatter_count @ '' detected'']\<rparr>
      else res)"

definition analyse :: "config \<Rightarrow> frame \<Rightarrow> string \<Rightarrow> int \<Rightarrow> datetime \<Rightarrow> result" where
  "analyse cfg gray part cam now =
     (let res = \<lparr>part_number = part, cam_id = cam, status = ''OK'',
                 measurements = replicate 12 (PyFloat 0), defects = [],
                 timestamp = now, image_path = []\<rparr>;
          part_present = detect_part_presence gray (PART_DETECTION_THRESHOLD cfg)
      in if \<not> part_present
         then res\<lparr>status := ''NOK'', defects := defects res @ [''Part Missing'']\<rparr>
         else
           let holes = sort_key hx (detect_holes gray)
           in check_spatter cfg (detect_spatter gray)
                (measure_seams holes (check_missing_holes holes (record_measurements holes res))))"

text \<open>
  \<open>_save_to_csv\<close>. It reads the whole file first, so an exception of \<open>pd.read_csv\<close> ends
  the call before anything is written. The loop over the measurements stores
  \<open>round(float(val), 2)\<close>, or \<open>0.0\<close> when \<open>float\<close> raises \<open>ValueError\<close> or \<open>TypeError\<close>; any
  other exception (\<open>OverflowError\<close>) leaves the loop and the call, again before the file
  is written. Otherwise the file is rewritten with the rows of the frame that was read,
  followed by the new row.
\<close>

definition row_value :: "pyval \<Rightarrow> py_error + pyfloat" where
  "row_value val =
     (case py_float val of
        Inr x \<Rightarrow> Inr (py_round_float x 2)
      | Inl e \<Rightarrow> (if e = ValueError \<or> e = TypeError then Inr (Finite 0) else Inl e))"

fun row_values :: "pyval list \<Rightarrow> py_error + pyfloat list" where
  "row_values [] = Inr []"
| "row_values (val # vals) =
     (case row_value val of
        Inl e \<Rightarrow> Inl e
      | Inr v \<Rightarrow> (case row_values vals of Inl e \<Rightarrow> Inl e | Inr vs \<Rightarrow> Inr (v # vs)))"

definition save_to_csv :: "inspector \<Rightarrow> result \<Rightarrow> nat \<Rightarrow> py_error + inspector" where
  "save_to_csv self res counter_val =
     (case pd_read_csv self (csv_rows self) of
        Inl e \<Rightarrow> Inl e
      | Inr df_existing \<Rightarrow>
          (case row_values (measurements res) of
             Inl e \<Rightarrow> Inl e
           | Inr vals \<Rightarrow>
               Inr (self\<lparr>csv_rows := df_existing @
                     [\<lparr>Number = length df_existing + 1, OK_NOK = status res,
                       Ordernumber = order_number self, Counter = counter_val,
                       Date = fst (timestamp res), Time = snd (timestamp res),
                       Values = vals, User = user self\<rparr>]\<rparr>)))"

text \<open>
  \<open>process_and_save\<close>. The call either returns the result dictionary or raises what
  \<open>_save_to_csv\<close> raises; in both cases the \<open>Inspector\<close> object and the files keep what was
  done before: the counter is incremented and the image is written. \<open>process_and_save\<close>
  gives the result dictionary as the call has built it and the inspector as the call
  leaves it; \<open>process_and_save_raises\<close> gives the exception, if any, that reaches the
  caller instead of the dictionary.
\<close>

definition process_and_save ::
  "config \<Rightarrow> inspector \<Rightarrow> frame \<Rightarrow> string \<Rightarrow> int \<Rightarrow> datetime \<Rightarrow> result \<times> inspector" where
  "process_and_save cfg self img part cam now =
     (let res = analyse cfg img part cam now;
          self1 = (if status res = ''OK'' then self\<lparr>ok_counter := ok_counter self + 1\<rparr>
                   else self\<lparr>nok_counter := nok_counter self + 1\<rparr>);
          counter_val = (if status res = ''OK'' then ok_counter self1 else nok_counter self1);
          output_path = get_next_filename (files self1) (order_dir self1) (status res)
                          (order_number self1) part counter_val cam;
          self2 = self1\<lparr>files := output_path # files self1\<rparr>;
          res1 = res\<lparr>image_path := output_path\<rparr>
      in (res1, case save_to_csv self2 res1 counter_val of Inr self3 \<Rightarrow> self3 | Inl e \<Rightarrow> self2))"

definition process_and_save_raises ::
  "config \<Rightarrow> inspector \<Rightarrow> frame \<Rightarrow> string \<Rightarrow> int \<Rightarrow> datetime \<Rightarrow> py_error option" where
  "process_and_save_raises cfg self img part cam now =
     (let res = analyse cfg img part cam now;
          self1 = (if status res = ''OK'' then self\<lparr>ok_counter := ok_counter self + 1\<rparr>
                   else self\<lparr>nok_counter := nok_counter self + 1\<rparr>);
          counter_val = (if status res = ''OK'' then ok_counter self1 else nok_counter self1);
          output_path = get_next_filename (files self1) (order_dir self1) (status res)
                          (order_number self1) part counter_val cam;
          self2 = self1\<lparr>files := output_path # files self1\<rparr>;
          res1 = res\<lparr>image_path := output_path\<rparr>
      in case save_to_csv self2 res1 counter_val of Inr self3 \<Rightarrow> None | Inl e \<Rightarrow> Some e)"

text \<open>\<open>capture_and_process\<close>, with the image the camera returned (or \<open>None\<close>) as input.\<close>

record error_dict =
  err_status :: string
  message :: string

definition capture_and_process ::
  "config \<Rightarrow> inspector \<Rightarrow> frame option \<Rightarrow> string \<Rightarrow> int \<Rightarrow> datetime
     \<Rightarrow> (error_dict + result) \<times> inspector" where
  "capture_and_process cfg self captured part cam now =
     (case captured of
        Some img \<Rightarrow> (case process_and_save cfg self img part cam now of
                       (res, self') \<Rightarrow> (Inr res, self'))
      | None \<Rightarrow> (Inl \<lparr>err_status = ''ERROR'', message = ''Image capture failed''\<rparr>, self))"

text \<open>A session: \<open>process_and_save\<close> called on one frame after the other.\<close>

fun process_all ::
  "config \<Rightarrow> inspector \<Rightarrow> (frame \<times> string \<times> int \<times> datetime) list \<Rightarrow> result list \<times> inspector" where
  "process_all cfg self [] = ([], self)"
| "process_all cfg self ((img, part, cam, now) # calls) =
     (case process_and_save cfg self img part cam now of
        (res, self') \<Rightarrow>
          (case process_all cfg self' calls of (rs, self'') \<Rightarrow> (res # rs, self'')))"

section \<open>Example inputs\<close>

text \<open>
  Concrete holes, frames and a fresh inspector, used to evaluate the theorems below.
\<close>

definition square_holes :: "hole list" where
  "square_holes = [((0, 0), 30, 30), ((100, 0), 40, 40), ((0, 100), 30, 30), ((100, 100), 40, 40)]"

definition overlapping_holes :: "hole list" where
  "overlapping_holes = [((0, 0), 30, 30), ((10, 0), 40, 40), ((0, 100), 30, 30), ((10, 100), 40, 40)]"

definition frame_three_holes :: frame where
  "frame_three_holes = \<lparr>gray_mean = 200,
     hough_circles = Some [(170, 136, 20), (430, 136, 20), (170, 264, 20)],
     contour_areas = [1256, 1256, 1256]\<rparr>"

definition frame_five_holes :: frame where
  "frame_five_holes = \<lparr>gray_mean = 200,
     hough_circles = Some [(170, 136, 20), (430, 136, 20), (170, 264, 20), (430, 264, 20),
                           (300, 200, 20)],
     contour_areas = [1256, 1256, 1256, 1256, 1256]\<rparr>"

definition frame_empty_fixture :: frame where
  "frame_empty_fixture = \<lparr>gray_mean = 255, hough_circles = None, contour_areas = []\<rparr>"

text \<open>
  A reader for the examples. On the \<open>Ordernumber\<close> column it does what pandas' inference
  does when every cell consists of digits (the column becomes integers, so leading zeros
  are lost), and on the \<open>User\<close> column what it does with the marker \<open>NA\<close> (the cell becomes
  missing and is written back empty); it never raises.
\<close>

definition strip_zeros :: "string \<Rightarrow> string" where
  "strip_zeros s = (if dropWhile (\<lambda>c. c = CHR ''0'') s = [] then ''0''
                    else dropWhile (\<lambda>c. c = CHR ''0'') s)"

definition is_digits :: "string \<Rightarrow> bool" where
  "is_digits s = (s \<noteq> [] \<and> list_all (\<lambda>c. c \<in> set ''0123456789'') s)"

definition example_read_csv :: "csv_row list \<Rightarrow> py_error + csv_row list" where
  "example_read_csv rows =
     Inr (map (\<lambda>r. r\<lparr>Ordernumber :=
                        (if list_all (\<lambda>r'. is_digits (Ordernumber r')) rows
                         then strip_zeros (Ordernumber r) else Ordernumber r),
                      User := (if User r = ''NA'' then [] else User r)\<rparr>) rows)"

definition demo_inspector :: inspector where
  "demo_inspector = Inspector_init ''Bob'' ''749274'' ''.'' [] [] example_read_csv"

definition demo_time :: datetime where
  "demo_time = (''2024-01-01'', ''10:00:00'')"

definition frame_bright_with_features :: frame where
  "frame_bright_with_features = \<lparr>gray_mean = 250,
     hough_circles = Some [(170, 136, 20), (430, 136, 20), (170, 264, 20)],
     contour_areas = [10, 10, 10, 10, 10, 10, 10]\<rparr>"

definition frame_good :: frame where
  "frame_good = \<lparr>gray_mean = 200,
     hough_circles = Some [(430, 264, 23), (170, 136, 20), (430, 136, 21), (170, 264, 22)],
     contour_areas = [1256, 1256, 1256, 1256]\<rparr>"

definition demo_calls :: "(frame \<times> string \<times> int \<times> datetime) list" where
  "demo_calls = [(frame_good, ''1568'', 1, demo_time),
                 (frame_bright_with_features, ''1569'', 1, demo_time),
                 (frame_three_holes, ''1571'', 1, demo_time)]"

text \<open>
  A result dictionary as \<open>_save_to_csv\<close> can be handed one directly, with values on which
  \<open>float\<close> raises, \<open>nan\<close> and \<open>inf\<close> among its twelve measurements, and one with an int too
  large for a float.
\<close>

definition demo_result :: result where
  "demo_result = \<lparr>part_number = ''1568'', cam_id = 1, status = ''OK'',
     measurements = [PyFloat 3.14159, PyRaises TypeError, PyFloat (- 0.126),
                     PyRaises ValueError, PyNan, PyInf True,
                     PyFloat 0, PyFloat 0, PyFloat 0, PyFloat 0, PyFloat 0, PyFloat 0],
     defects = [], timestamp = demo_time,
     image_path = ''./749274/OK_749274_1568Count1_CAM1.jpg''\<rparr>"

definition overflow_result :: result where
  "overflow_result = demo_result\<lparr>measurements := (measurements demo_result)[6 := PyRaises OverflowError]\<rparr>"

text \<open>
  The session \<open>Inspector(user='NA', order_number='007', output_dir='.')\<close> in a fresh
  directory, and its state after one and after two calls of \<open>process_and_save\<close> on a frame
  of the empty fixture.
\<close>

definition na_inspector :: inspector where
  "na_inspector = Inspector_init ''NA'' ''007'' ''.'' [] [] example_read_csv"

definition na_first :: inspector where
  "na_first = snd (process_and_save Config na_inspector frame_empty_fixture ''1568'' 1 demo_time)"

definition na_second :: inspector where
  "na_second = snd (process_and_save Config na_first frame_empty_fixture ''1568'' 1 demo_time)"

section \<open>Properties of the seam computation\<close>

lemma hy_translate: "hy (translate dx dy h) = hy h + dy"
  by (simp add: hy_def translate_def)

lemma hx_translate: "hx (translate dx dy h) = hx h + dx"
  by (simp add: hx_def translate_def)

lemma width_translate: "width (translate dx dy h) = width h"
  by (simp add: width_def translate_def)

lemma insort_key_hy_translate:
  "insort_key hy (translate dx dy x) (map (translate dx dy) ys) =
   map (translate dx dy) (insort_key hy x ys)"
  by (induction ys) (simp_all add: hy_translate)

lemma insort_key_hx_translate:
  "insort_key hx (translate dx dy x) (map (translate dx dy) ys) =
   map (translate dx dy) (insort_key hx x ys)"
  by (induction ys) (simp_all add: hx_translate)

lemma sort_key_hy_translate:
  "sort_key hy (map (translate dx dy) hs) = map (translate dx dy) (sort_key hy hs)"
  by (induction hs) (simp_all add: insort_key_hy_translate)

lemma sort_key_hx_translate:
  "sort_key hx (map (translate dx dy) hs) = map (translate dx dy) (sort_key hx hs)"
  by (induction hs) (simp_all add: insort_key_hx_translate)

lemma top_row_translate:
  "top_row (map (translate dx dy) hs) = map (translate dx dy) (top_row hs)"
  by (simp add: top_row_def sort_key_hy_translate sort_key_hx_translate take_map)

lemma bottom_row_translate:
  "bottom_row (map (translate dx dy) hs) = map (translate dx dy) (bottom_row hs)"
  by (simp add: bottom_row_def sort_key_hy_translate sort_key_hx_translate take_map drop_map)

lemma length_top_row: "4 \<le> length hs \<Longrightarrow> length (top_row hs) = 2"
  by (simp add: top_row_def)

lemma length_bottom_row: "4 \<le> length hs \<Longrightarrow> length (bottom_row hs) = 2"
  by (simp add: bottom_row_def)

lemma distance_translate:
  "distance (centre (translate dx dy a)) (centre (translate dx dy b)) =
   distance (centre a) (centre b)"
  by (simp add: distance_def centre_def translate_def hx_def hy_def)

text \<open>
  Claim C8. \<open>calculate_seam_lengths\<close> is translation-invariant: adding the same offset
  \<open>(dx, dy)\<close> to every hole centre leaves all four seam lengths unchanged. It holds for
  every list of holes, in particular for those with at least four.
\<close>

theorem calculate_seam_lengths_translation_invariant:
  "calculate_seam_lengths (map (translate dx dy) holes) = calculate_seam_lengths holes"
proof (cases "length holes < 4")
  case True
  then show ?thesis by (simp add: calculate_seam_lengths_def)
next
  case False
  then have len: "4 \<le> length holes" by simp
  have t: "length (top_row holes) = 2" and b: "length (bottom_row holes) = 2"
    using len by (simp_all add: length_top_row length_bottom_row)
  show ?thesis
    using False t b
    by (simp add: calculate_seam_lengths_def top_row_translate bottom_row_translate
        distance_translate width_translate Let_def)
qed

lemma distance_horizontal:
  "snd p1 = snd p2 \<Longrightarrow> distance p1 p2 = \<bar>real_of_int (fst p2 - fst p1)\<bar>"
  by (simp add: distance_def)

lemma distance_vertical:
  "fst p1 = fst p2 \<Longrightarrow> distance p1 p2 = \<bar>real_of_int (snd p2 - snd p1)\<bar>"
  by (simp add: distance_def)

lemma list_four:
  "4 \<le> length xs \<Longrightarrow> \<exists>a b c d rest. xs = a # b # c # d # rest"
  by (auto simp: Suc_le_length_iff eval_nat_numeral)

lemma sort_key_pair:
  "sort_key f [a, b] = (if f a \<le> f b then [a, b] else [b, a])"
  by simp

lemma grid_rows:
  assumes "4 \<le> length holes"
  shows "\<exists>tl tr bl br rest.
     top_row holes = [tl, tr] \<and> bottom_row holes = [bl, br] \<and>
     mset holes = {#tl, tr, bl, br#} + rest \<and>
     hx tl \<le> hx tr \<and> hx bl \<le> hx br \<and>
     max (hy tl) (hy tr) \<le> min (hy bl) (hy br) \<and>
     (\<forall>h \<in># rest. max (hy bl) (hy br) \<le> hy h)"
proof -
  have "4 \<le> length (sort_key hy holes)" using assms by simp
  then obtain a b c d rest where s: "sort_key hy holes = a # b # c # d # rest"
    using list_four by blast
  have "sorted (map hy (sort_key hy holes))" by simp
  then have ord: "hy a \<le> hy b" "hy b \<le> hy c" "hy c \<le> hy d" "\<forall>h \<in> set rest. hy d \<le> hy h"
    by (simp_all add: s)
  have "mset (sort_key hy holes) = mset holes" by simp
  then have m: "mset holes = {#a, b, c, d#} + mset rest"
    by (simp add: s)
  have t: "top_row holes = (if hx a \<le> hx b then [a, b] else [b, a])"
    by (simp add: top_row_def s)
  have b: "bottom_row holes = (if hx c \<le> hx d then [c, d] else [d, c])"
    by (simp add: bottom_row_def s)
  show ?thesis
  proof (cases "hx a \<le> hx b")
    case ab: True
    show ?thesis
    proof (cases "hx c \<le> hx d")
      case True
      have "top_row holes = [a, b] \<and> bottom_row holes = [c, d] \<and>
        mset holes = {#a, b, c, d#} + mset rest \<and> hx a \<le> hx b \<and> hx c \<le> hx d \<and>
        max (hy a) (hy b) \<le> min (hy c) (hy d) \<and> (\<forall>h \<in># mset rest. max (hy c) (hy d) \<le> hy h)"
        using ab True t b m ord by simp
      then show ?thesis by blast
    next
      case False
      have "top_row holes = [a, b] \<and> bottom_row holes = [d, c] \<and>
        mset holes = {#a, b, d, c#} + mset rest \<and> hx a \<le> hx b \<and> hx d \<le> hx c \<and>
        max (hy a) (hy b) \<le> min (hy d) (hy c) \<and> (\<forall>h \<in># mset rest. max (hy d) (hy c) \<le> hy h)"
        using ab False t b m ord by simp
      then show ?thesis by blast
    qed
  next
    case ab: False
    show ?thesis
    proof (cases "hx c \<le> hx d")
      case True
      have "top_row holes = [b, a] \<and> bottom_row holes = [c, d] \<and>
        mset holes = {#b, a, c, d#} + mset rest \<and> hx b \<le> hx a \<and> hx c \<le> hx d \<and>
        max (hy b) (hy a) \<le> min (hy c) (hy d) \<and> (\<forall>h \<in># mset rest. max (hy c) (hy d) \<le> hy h)"
        using ab True t b m ord by simp
      then show ?thesis by blast
    next
      case False
      have "top_row holes = [b, a] \<and> bottom_row holes = [d, c] \<and>
        mset holes = {#b, a, d, c#} + mset rest \<and> hx b \<le> hx a \<and> hx d \<le> hx c \<and>
        max (hy b) (hy a) \<le> min (hy d) (hy c) \<and> (\<forall>h \<in># mset rest. max (hy d) (hy c) \<le> hy h)"
        using ab False t b m ord by simp
      then show ?thesis by blast
    qed
  qed
qed

text \<open>
  Claim C4. For a list of at least four holes, \<open>calculate_seam_lengths\<close> picks the four
  holes with the smallest y (the first four by ascending y), splits them into a top and a
  bottom pair, orders each pair by ascending x, and returns for each of the four seams the
  Euclidean distance between the two centres minus the sum of the two radii (half the
  widths). Nothing clamps the result, so it is negative when the holes overlap.
\<close>

theorem calculate_seam_lengths_grid:
  assumes "4 \<le> length holes"
  shows "\<exists>tl tr bl br rest.
     mset holes = {#tl, tr, bl, br#} + rest \<and>
     hx tl \<le> hx tr \<and> hx bl \<le> hx br \<and>
     max (hy tl) (hy tr) \<le> min (hy bl) (hy br) \<and>
     (\<forall>h \<in># rest. max (hy bl) (hy br) \<le> hy h) \<and>
     calculate_seam_lengths holes =
       (distance (centre tl) (centre tr) - (width tl / 2 + width tr / 2),
        distance (centre bl) (centre br) - (width bl / 2 + width br / 2),
        distance (centre tl) (centre bl) - (width tl / 2 + width bl / 2),
        distance (centre tr) (centre br) - (width tr / 2 + width br / 2))"
proof -
  from grid_rows [OF assms] obtain tl tr bl br rest where
    rows: "top_row holes = [tl, tr]" "bottom_row holes = [bl, br]" and
    rest: "mset holes = {#tl, tr, bl, br#} + rest" "hx tl \<le> hx tr" "hx bl \<le> hx br"
      "max (hy tl) (hy tr) \<le> min (hy bl) (hy br)"
      "\<forall>h \<in># rest. max (hy bl) (hy br) \<le> hy h"
    by blast
  have "calculate_seam_lengths holes =
       (distance (centre tl) (centre tr) - (width tl / 2 + width tr / 2),
        distance (centre bl) (centre br) - (width bl / 2 + width br / 2),
        distance (centre tl) (centre bl) - (width tl / 2 + width bl / 2),
        distance (centre tr) (centre br) - (width tr / 2 + width br / 2))"
    using assms by (simp add: calculate_seam_lengths_def rows Let_def)
  with rest show ?thesis by blast
qed

lemma seams_square: "calculate_seam_lengths square_holes = (65, 65, 70, 60)"
proof -
  have t: "top_row square_holes = [((0, 0), 30, 30), ((100, 0), 40, 40)]"
    by (simp add: top_row_def square_holes_def hx_def hy_def)
  have b: "bottom_row square_holes = [((0, 100), 30, 30), ((100, 100), 40, 40)]"
    by (simp add: bottom_row_def square_holes_def hx_def hy_def)
  have d1: "distance (0, 0) (100, 0) = 100" by (simp add: distance_horizontal)
  have d2: "distance (0, 100) (100, 100) = 100" by (simp add: distance_horizontal)
  have d3: "distance (0, 0) (0, 100) = 100" by (simp add: distance_vertical)
  have d4: "distance (100, 0) (100, 100) = 100" by (simp add: distance_vertical)
  have l: "length square_holes = 4" by (simp add: square_holes_def)
  show ?thesis
    by (simp add: calculate_seam_lengths_def l t b centre_def width_def d1 d2 d3 d4 Let_def)
qed

lemma seams_overlapping: "calculate_seam_lengths overlapping_holes = (- 25, - 25, 70, 60)"
proof -
  have t: "top_row overlapping_holes = [((0, 0), 30, 30), ((10, 0), 40, 40)]"
    by (simp add: top_row_def overlapping_holes_def hx_def hy_def)
  have b: "bottom_row overlapping_holes = [((0, 100), 30, 30), ((10, 100), 40, 40)]"
    by (simp add: bottom_row_def overlapping_holes_def hx_def hy_def)
  have d1: "distance (0, 0) (10, 0) = 10" by (simp add: distance_horizontal)
  have d2: "distance (0, 100) (10, 100) = 10" by (simp add: distance_horizontal)
  have d3: "distance (0, 0) (0, 100) = 100" by (simp add: distance_vertical)
  have d4: "distance (10, 0) (10, 100) = 100" by (simp add: distance_vertical)
  have l: "length overlapping_holes = 4" by (simp add: overlapping_holes_def)
  show ?thesis
    by (simp add: calculate_seam_lengths_def l t b centre_def width_def d1 d2 d3 d4 Let_def)
qed

theorem calculate_seam_lengths_grid_witness:
  "4 \<le> length square_holes \<and>
   (\<exists>tl tr bl br rest.
     mset square_holes = {#tl, tr, bl, br#} + rest \<and>
     hx tl \<le> hx tr \<and> hx bl \<le> hx br \<and>
     max (hy tl) (hy tr) \<le> min (hy bl) (hy br) \<and>
     (\<forall>h \<in># rest. max (hy bl) (hy br) \<le> hy h) \<and>
     calculate_seam_lengths square_holes =
       (distance (centre tl) (centre tr) - (width tl / 2 + width tr / 2),
        distance (centre bl) (centre br) - (width bl / 2 + width br / 2),
        distance (centre tl) (centre bl) - (width tl / 2 + width bl / 2),
        distance (centre tr) (centre br) - (width tr / 2 + width br / 2))) \<and>
   calculate_seam_lengths square_holes = (65, 65, 70, 60) \<and>
   calculate_seam_lengths overlapping_holes = (- 25, - 25, 70, 60)"
proof -
  have l: "4 \<le> length square_holes" by (simp add: square_holes_def)
  from calculate_seam_lengths_grid [OF l] l seams_square seams_overlapping
  show ?thesis by (simp only: simp_thms)
qed

section \<open>Properties of the file naming\<close>

lemma get_next_filename_loop_spec:
  "\<exists>j\<ge>k. get_next_filename_loop fs d n k = suffixed_path d n j \<and>
     \<not> path_exists fs (suffixed_path d n j) \<and>
     (\<forall>i. k \<le> i \<and> i < j \<longrightarrow> path_exists fs (suffixed_path d n i))"
proof (induction fs d n k rule: get_next_filename_loop.induct)
  case (1 fs d n k)
  show ?case
  proof (cases "path_exists fs (suffixed_path d n k)")
    case False
    then have "get_next_filename_loop fs d n k = suffixed_path d n k"
      by (subst get_next_filename_loop.simps) simp
    with False show ?thesis by auto
  next
    case True
    then have e: "get_next_filename_loop fs d n k = get_next_filename_loop fs d n (k + 1)"
      by (subst get_next_filename_loop.simps) simp
    from True "1.IH" obtain j where j: "k + 1 \<le> j"
      "get_next_filename_loop fs d n (k + 1) = suffixed_path d n j"
      "\<not> path_exists fs (suffixed_path d n j)"
      "\<forall>i. k + 1 \<le> i \<and> i < j \<longrightarrow> path_exists fs (suffixed_path d n i)"
      by auto
    have "\<forall>i. k \<le> i \<and> i < j \<longrightarrow> path_exists fs (suffixed_path d n i)"
    proof (intro allI impI)
      fix i assume i: "k \<le> i \<and> i < j"
      show "path_exists fs (suffixed_path d n i)"
      proof (cases "i = k")
        case True
        with \<open>path_exists fs (suffixed_path d n k)\<close> show ?thesis by simp
      next
        case False
        with i have "k + 1 \<le> i \<and> i < j" by simp
        with j(4) show ?thesis by blast
      qed
    qed
    moreover have "k \<le> j" using j(1) by simp
    ultimately show ?thesis using e j(2,3) by auto
  qed
qed

lemma path_join_nonempty:
  "n \<noteq> [] \<Longrightarrow> \<exists>pre. \<forall>s. path_join d (n @ s) = pre @ n @ s"
proof -
  assume n: "n \<noteq> []"
  then have h: "\<And>s. hd (n @ s) = hd n" by simp
  show ?thesis
  proof (cases "hd n = CHR ''/''")
    case True
    with n h have "\<forall>s. path_join d (n @ s) = [] @ n @ s" by (simp add: path_join_def)
    then show ?thesis by blast
  next
    case nh: False
    show ?thesis
    proof (cases "d = [] \<or> last d = CHR ''/''")
      case True
      with nh n have "\<forall>s. path_join d (n @ s) = d @ n @ s" by (auto simp add: path_join_def)
      then show ?thesis by blast
    next
      case False
      with nh n have "\<forall>s. path_join d (n @ s) = (d @ ''/'') @ n @ s"
        by (auto simp add: path_join_def)
      then show ?thesis by blast
    qed
  qed
qed

lemma suffixed_path_not_base:
  "suffixed_path d (name_without_ext st ord part c cam) k
     \<noteq> path_join d (base_name st ord part c cam)"
proof -
  let ?n = "name_without_ext st ord part c cam"
  have "?n \<noteq> []" by (simp add: name_without_ext_def)
  then obtain pre where p: "\<And>s. path_join d (?n @ s) = pre @ ?n @ s"
    using path_join_nonempty by blast
  have "suffixed_path d ?n k = pre @ ?n @ ''_'' @ str_nat k @ ''.jpg''"
    by (simp only: suffixed_path_def p)
  moreover have "path_join d (base_name st ord part c cam) = pre @ ?n @ ''.jpg''"
    by (simp only: base_name_ext p)
  ultimately show ?thesis by simp
qed

text \<open>
  Claim C7. \<open>get_next_filename\<close> only reads the file system, so two calls on the same
  file system return the same path. The path it returns never exists. It is the base name
  \<open>{status}_{orderNumber}_{partNumber}Count{counter}_CAM{camId}.jpg\<close> when that does not
  exist; otherwise it is the name with the first integer suffix \<open>_k\<close>, \<open>k \<ge> 1\<close>, that does
  not exist; and once the base path has been created, the next call returns the suffix
  \<open>_1\<close>.
\<close>

theorem get_next_filename_first_available:
  "\<not> path_exists fs (get_next_filename fs dir st ord part counter cam) \<and>
   (\<not> path_exists fs (path_join dir (base_name st ord part counter cam)) \<longrightarrow>
      get_next_filename fs dir st ord part counter cam =
        path_join dir (base_name st ord part counter cam)) \<and>
   (path_exists fs (path_join dir (base_name st ord part counter cam)) \<longrightarrow>
      (\<exists>k\<ge>1. get_next_filename fs dir st ord part counter cam =
          suffixed_path dir (name_without_ext st ord part counter cam) k \<and>
        (\<forall>j. 1 \<le> j \<and> j < k \<longrightarrow>
          path_exists fs
            (suffixed_path dir (name_without_ext st ord part counter cam) j)))) \<and>
   (\<not> path_exists fs (path_join dir (base_name st ord part counter cam)) \<and>
    \<not> path_exists fs
        (suffixed_path dir (name_without_ext st ord part counter cam) 1) \<longrightarrow>
      get_next_filename
        (path_join dir (base_name st ord part counter cam) # fs)
        dir st ord part counter cam =
        suffixed_path dir (name_without_ext st ord part counter cam) 1)"
proof -
  let ?base = "path_join dir (base_name st ord part counter cam)"
  let ?n = "name_without_ext st ord part counter cam"
  let ?r = "get_next_filename fs dir st ord part counter cam"
  have nb: "\<not> path_exists fs ?base \<Longrightarrow> ?r = ?base"
    by (simp add: get_next_filename_def Let_def)
  have lp: "\<And>fs. path_exists fs ?base \<Longrightarrow>
      get_next_filename fs dir st ord part counter cam =
        get_next_filename_loop fs dir ?n 1"
    by (simp add: get_next_filename_def Let_def splitext_base_name)
  obtain k where k: "1 \<le> k" "get_next_filename_loop fs dir ?n 1 = suffixed_path dir ?n k"
      "\<not> path_exists fs (suffixed_path dir ?n k)"
      "\<forall>i. 1 \<le> i \<and> i < k \<longrightarrow> path_exists fs (suffixed_path dir ?n i)"
    using get_next_filename_loop_spec [of 1 fs dir ?n] by blast
  have a: "\<not> path_exists fs ?r"
  proof (cases "path_exists fs ?base")
    case True
    then show ?thesis using lp [of fs] k by simp
  next
    case False
    then show ?thesis using nb by simp
  qed
  have c: "path_exists fs ?base \<longrightarrow>
      (\<exists>k\<ge>1. ?r = suffixed_path dir ?n k \<and>
        (\<forall>j. 1 \<le> j \<and> j < k \<longrightarrow> path_exists fs (suffixed_path dir ?n j)))"
    using lp [of fs] k by auto
  have d: "\<not> path_exists fs ?base \<and> \<not> path_exists fs (suffixed_path dir ?n 1) \<longrightarrow>
      get_next_filename (?base # fs) dir st ord part counter cam =
        suffixed_path dir ?n 1"
  proof
    assume h: "\<not> path_exists fs ?base \<and> \<not> path_exists fs (suffixed_path dir ?n 1)"
    have e: "path_exists (?base # fs) ?base" by (simp add: path_exists_def)
    have "\<not> path_exists (?base # fs) (suffixed_path dir ?n 1)"
      using h suffixed_path_not_base [of dir st ord part counter cam 1]
      by (simp add: path_exists_def)
    then have "get_next_filename_loop (?base # fs) dir ?n 1 = suffixed_path dir ?n 1"
      by (subst get_next_filename_loop.simps) simp
    with lp [OF e] show "get_next_filename (?base # fs) dir st ord part
        counter cam = suffixed_path dir ?n 1" by simp
  qed
  from a nb c d show ?thesis by blast
qed

theorem get_next_filename_first_available_witness:
  "path_exists [''out/OK_749274_1568Count1_CAM1.jpg'', ''out/OK_749274_1568Count1_CAM1_1.jpg'']
     (path_join ''out'' (base_name ''OK'' ''749274'' ''1568'' 1 1)) \<and>
   get_next_filename [''out/OK_749274_1568Count1_CAM1.jpg'', ''out/OK_749274_1568Count1_CAM1_1.jpg'']
     ''out'' ''OK'' ''749274'' ''1568'' 1 1 = ''out/OK_749274_1568Count1_CAM1_2.jpg'' \<and>
   \<not> path_exists [''out/OK_749274_1568Count1_CAM1.jpg'', ''out/OK_749274_1568Count1_CAM1_1.jpg'']
     (get_next_filename [''out/OK_749274_1568Count1_CAM1.jpg'', ''out/OK_749274_1568Count1_CAM1_1.jpg'']
       ''out'' ''OK'' ''749274'' ''1568'' 1 1) \<and>
   \<not> path_exists [] (path_join ''out'' (base_name ''OK'' ''749274'' ''1568'' 1 1)) \<and>
   \<not> path_exists [] (suffixed_path ''out'' (name_without_ext ''OK'' ''749274'' ''1568'' 1 1) 1) \<and>
   get_next_filename [] ''out'' ''OK'' ''749274'' ''1568'' 1 1 = ''out/OK_749274_1568Count1_CAM1.jpg'' \<and>
   get_next_filename [path_join ''out'' (base_name ''OK'' ''749274'' ''1568'' 1 1)]
     ''out'' ''OK'' ''749274'' ''1568'' 1 1 = ''out/OK_749274_1568Count1_CAM1_1.jpg''"
proof -
  have e1: "path_exists [''out/OK_749274_1568Count1_CAM1.jpg'', ''out/OK_749274_1568Count1_CAM1_1.jpg'']
     (path_join ''out'' (base_name ''OK'' ''749274'' ''1568'' 1 1))"
    by code_simp
  have e2: "get_next_filename [''out/OK_749274_1568Count1_CAM1.jpg'', ''out/OK_749274_1568Count1_CAM1_1.jpg'']
     ''out'' ''OK'' ''749274'' ''1568'' 1 1 = ''out/OK_749274_1568Count1_CAM1_2.jpg''"
    by code_simp
  have e3: "\<not> path_exists [] (path_join ''out'' (base_name ''OK'' ''749274'' ''1568'' 1 1))"
    by (simp add: path_exists_def)
  have e4: "\<not> path_exists [] (suffixed_path ''out'' (name_without_ext ''OK'' ''749274'' ''1568'' 1 1) 1)"
    by (simp add: path_exists_def)
  have e5: "path_join ''out'' (base_name ''OK'' ''749274'' ''1568'' 1 1) = ''out/OK_749274_1568Count1_CAM1.jpg''"
    by code_simp
  have e6: "suffixed_path ''out'' (name_without_ext ''OK'' ''749274'' ''1568'' 1 1) 1
      = ''out/OK_749274_1568Count1_CAM1_1.jpg''"
    by code_simp
  note t1 = get_next_filename_first_available
    [of "[''out/OK_749274_1568Count1_CAM1.jpg'', ''out/OK_749274_1568Count1_CAM1_1.jpg'']"
        "''out''" "''OK''" "''749274''" "''1568''" 1 1]
  note t2 = get_next_filename_first_available [of "[]" "''out''" "''OK''" "''749274''" "''1568''" 1 1]
  from t1 have a: "\<not> path_exists [''out/OK_749274_1568Count1_CAM1.jpg'', ''out/OK_749274_1568Count1_CAM1_1.jpg'']
     (get_next_filename [''out/OK_749274_1568Count1_CAM1.jpg'', ''out/OK_749274_1568Count1_CAM1_1.jpg'']
       ''out'' ''OK'' ''749274'' ''1568'' 1 1)" by blast
  from t2 e3 have b: "get_next_filename [] ''out'' ''OK'' ''749274'' ''1568'' 1 1
      = path_join ''out'' (base_name ''OK'' ''749274'' ''1568'' 1 1)" by blast
  from t2 e3 e4 have c: "get_next_filename [path_join ''out'' (base_name ''OK'' ''749274'' ''1568'' 1 1)]
     ''out'' ''OK'' ''749274'' ''1568'' 1 1
      = suffixed_path ''out'' (name_without_ext ''OK'' ''749274'' ''1568'' 1 1) 1" by blast
  from e1 e2 a e3 e4 b c e5 e6 show ?thesis by (simp only: simp_thms)
qed

section \<open>Properties of the classification\<close>

lemma str_nat_digit: "n < 10 \<Longrightarrow> str_nat n = [digit_char n]"
  by (subst str_nat.simps) simp

lemma str_nat_4: "str_nat 4 = ''4''"
  by (simp add: str_nat_digit digit_char_def)

lemma str_nat_3: "str_nat 3 = ''3''"
  by (simp add: str_nat_digit digit_char_def)

lemma length_sorted_holes: "length (sort_key hx (detect_holes img)) = length (detect_holes img)"
  by simp

lemma status_record_measurements [simp]: "status (record_measurements hs r) = status r"
  by (simp add: record_measurements_def)

lemma defects_record_measurements [simp]: "defects (record_measurements hs r) = defects r"
  by (simp add: record_measurements_def)

lemma measurements_check_missing_holes [simp]:
  "measurements (check_missing_holes hs r) = measurements r"
  by (simp add: check_missing_holes_def)

lemma measurements_check_spatter [simp]:
  "measurements (check_spatter cfg k r) = measurements r"
  by (simp add: check_spatter_def)

lemma analyse_absent:
  "\<not> detect_part_presence img (PART_DETECTION_THRESHOLD cfg) \<Longrightarrow>
   analyse cfg img part cam now =
     \<lparr>part_number = part, cam_id = cam, status = ''NOK'',
      measurements = replicate 12 (PyFloat 0), defects = [''Part Missing''],
      timestamp = now, image_path = []\<rparr>"
  by (simp add: analyse_def Let_def)

lemma status_analyse_present:
  "detect_part_presence img (PART_DETECTION_THRESHOLD cfg) \<Longrightarrow>
   status (analyse cfg img part cam now) =
     (if length (detect_holes img) < 4 \<or> MAX_SPATTER_COUNT cfg < int (detect_spatter img)
      then ''NOK'' else ''OK'')"
  by (simp add: analyse_def Let_def check_spatter_def measure_seams_def check_missing_holes_def
      EXPECTED_HOLE_COUNT_def split: prod.splits)

lemma defects_analyse_present:
  "detect_part_presence img (PART_DETECTION_THRESHOLD cfg) \<Longrightarrow>
   defects (analyse cfg img part cam now) =
     (if length (detect_holes img) < 4
      then [''Missing holes: expected 4, found '' @ str_nat (length (detect_holes img)),
            ''Insufficient holes for weld measurement'']
      else []) @
     (if MAX_SPATTER_COUNT cfg < int (detect_spatter img)
      then [''Excessive spatter: '' @ str_nat (detect_spatter img) @ '' detected'']
      else [])"
  by (simp add: analyse_def Let_def check_spatter_def measure_seams_def check_missing_holes_def
      EXPECTED_HOLE_COUNT_def str_nat_4 split: prod.splits)

lemma status_analyse_cases:
  "status (analyse cfg img part cam now) = ''OK'' \<or> status (analyse cfg img part cam now) = ''NOK''"
proof (cases "detect_part_presence img (PART_DETECTION_THRESHOLD cfg)")
  case True
  then show ?thesis by (simp add: status_analyse_present)
next
  case False
  then show ?thesis by (simp add: analyse_absent)
qed

lemma status_process_and_save:
  "status (fst (process_and_save cfg self img part cam now)) = status (analyse cfg img part cam now)"
  by (simp add: process_and_save_def Let_def)

lemma defects_process_and_save:
  "defects (fst (process_and_save cfg self img part cam now)) = defects (analyse cfg img part cam now)"
  by (simp add: process_and_save_def Let_def)

lemma measurements_process_and_save:
  "measurements (fst (process_and_save cfg self img part cam now)) =
     measurements (analyse cfg img part cam now)"
  by (simp add: process_and_save_def Let_def)

lemma save_to_csv_counters:
  "save_to_csv self res c = Inr self' \<Longrightarrow>
     ok_counter self' = ok_counter self \<and> nok_counter self' = nok_counter self"
  by (auto simp add: save_to_csv_def split: sum.splits)

lemma counters_process_and_save:
  "ok_counter (snd (process_and_save cfg self img part cam now)) =
     ok_counter self + (if status (analyse cfg img part cam now) = ''OK'' then 1 else 0) \<and>
   nok_counter (snd (process_and_save cfg self img part cam now)) =
     nok_counter self + (if status (analyse cfg img part cam now) = ''OK'' then 0 else 1)"
proof -
  have keep: "ok_counter (case save_to_csv s r c of Inr s' \<Rightarrow> s' | Inl e \<Rightarrow> s) = ok_counter s \<and>
              nok_counter (case save_to_csv s r c of Inr s' \<Rightarrow> s' | Inl e \<Rightarrow> s) = nok_counter s"
    for s r c
    using save_to_csv_counters [of s r c] by (cases "save_to_csv s r c") simp_all
  show ?thesis
    by (simp add: process_and_save_def Let_def keep)
qed

lemma present_three: "detect_part_presence frame_three_holes (PART_DETECTION_THRESHOLD Config)"
  by (simp add: detect_part_presence_def frame_three_holes_def Config_def)

lemma holes_three: "length (detect_holes frame_three_holes) = 3"
  by (simp add: detect_holes_def frame_three_holes_def)

lemma spatter_three: "detect_spatter frame_three_holes = 0"
  by (simp add: detect_spatter_def frame_three_holes_def)

lemma present_five: "detect_part_presence frame_five_holes (PART_DETECTION_THRESHOLD Config)"
  by (simp add: detect_part_presence_def frame_five_holes_def Config_def)

lemma holes_five: "length (detect_holes frame_five_holes) = 5"
  by (simp add: detect_holes_def frame_five_holes_def)

lemma spatter_five: "detect_spatter frame_five_holes = 0"
  by (simp add: detect_spatter_def frame_five_holes_def)

text \<open>
  Claim C1, as the code has it. For a frame in which the part is present: when fewer holes
  than the expected count (4) are detected, the frame is NOK and the defect
  \<open>Missing holes: expected 4, found n\<close> is recorded; when four or more are detected, no
  missing-holes defect is recorded and the frame is NOK exactly when the spatter count
  exceeds its limit.
\<close>

theorem process_and_save_missing_holes:
  assumes "detect_part_presence img (PART_DETECTION_THRESHOLD cfg)"
  shows "(length (detect_holes img) < EXPECTED_HOLE_COUNT \<longrightarrow>
            status (fst (process_and_save cfg self img part cam now)) = ''NOK'' \<and>
            ''Missing holes: expected 4, found '' @ str_nat (length (detect_holes img))
              \<in> set (defects (fst (process_and_save cfg self img part cam now)))) \<and>
         (EXPECTED_HOLE_COUNT \<le> length (detect_holes img) \<longrightarrow>
            (\<forall>n. ''Missing holes: expected 4, found '' @ str_nat n
              \<notin> set (defects (fst (process_and_save cfg self img part cam now)))) \<and>
            (status (fst (process_and_save cfg self img part cam now)) = ''NOK''
              \<longleftrightarrow> MAX_SPATTER_COUNT cfg < int (detect_spatter img)))"
  using assms
  by (simp add: status_process_and_save defects_process_and_save status_analyse_present
      defects_analyse_present EXPECTED_HOLE_COUNT_def)

theorem process_and_save_missing_holes_witness:
  "detect_part_presence frame_three_holes (PART_DETECTION_THRESHOLD Config) \<and>
   length (detect_holes frame_three_holes) < EXPECTED_HOLE_COUNT \<and>
   status (fst (process_and_save Config demo_inspector frame_three_holes ''1568'' 1 demo_time)) = ''NOK'' \<and>
   ''Missing holes: expected 4, found 3''
     \<in> set (defects (fst (process_and_save Config demo_inspector frame_three_holes ''1568'' 1 demo_time)))"
proof -
  have l: "length (detect_holes frame_three_holes) < EXPECTED_HOLE_COUNT"
    by (simp add: holes_three EXPECTED_HOLE_COUNT_def)
  from process_and_save_missing_holes [OF present_three, of demo_inspector "''1568''" 1 demo_time] l
  have "status (fst (process_and_save Config demo_inspector frame_three_holes ''1568'' 1 demo_time)) = ''NOK'' \<and>
     ''Missing holes: expected 4, found '' @ str_nat (length (detect_holes frame_three_holes))
       \<in> set (defects (fst (process_and_save Config demo_inspector frame_three_holes ''1568'' 1 demo_time)))"
    by blast
  then show ?thesis using present_three l by (simp add: holes_three str_nat_3)
qed

text \<open>
  The claim as the specification states it (any hole count other than 4 gives NOK) fails
  on a frame with five holes and no spatter: the part is present, the count differs from
  the expected one, and the frame is classified OK with no defect.
\<close>

theorem five_holes_classified_ok:
  "detect_part_presence frame_five_holes (PART_DETECTION_THRESHOLD Config) \<and>
   length (detect_holes frame_five_holes) \<noteq> EXPECTED_HOLE_COUNT \<and>
   status (fst (process_and_save Config demo_inspector frame_five_holes ''1568'' 1 demo_time)) = ''OK'' \<and>
   defects (fst (process_and_save Config demo_inspector frame_five_holes ''1568'' 1 demo_time)) = []"
  using present_five
  by (simp add: status_process_and_save defects_process_and_save status_analyse_present
      defects_analyse_present holes_five spatter_five EXPECTED_HOLE_COUNT_def Config_def)

text \<open>
  Claim C5. For a frame in which the part is present and fewer than four holes are
  detected, the seam lengths are \<open>(0, 0, 0, 0)\<close>, the frame is NOK with the defect
  \<open>Insufficient holes for weld measurement\<close>, and the spatter check still runs: the
  spatter defect is recorded exactly when the count exceeds the limit.
\<close>

theorem process_and_save_few_holes:
  assumes "detect_part_presence img (PART_DETECTION_THRESHOLD cfg)"
    and "length (detect_holes img) < 4"
  shows "calculate_seam_lengths (sort_key hx (detect_holes img)) = (0, 0, 0, 0) \<and>
         status (fst (process_and_save cfg self img part cam now)) = ''NOK'' \<and>
         ''Insufficient holes for weld measurement''
           \<in> set (defects (fst (process_and_save cfg self img part cam now))) \<and>
         (''Excessive spatter: '' @ str_nat (detect_spatter img) @ '' detected''
           \<in> set (defects (fst (process_and_save cfg self img part cam now)))
           \<longleftrightarrow> MAX_SPATTER_COUNT cfg < int (detect_spatter img))"
  using assms
  by (simp add: status_process_and_save defects_process_and_save status_analyse_present
      defects_analyse_present calculate_seam_lengths_def)

theorem process_and_save_few_holes_witness:
  "detect_part_presence frame_three_holes (PART_DETECTION_THRESHOLD Config) \<and>
   length (detect_holes frame_three_holes) < 4 \<and>
   calculate_seam_lengths (sort_key hx (detect_holes frame_three_holes)) = (0, 0, 0, 0) \<and>
   status (fst (process_and_save Config demo_inspector frame_three_holes ''1568'' 1 demo_time)) = ''NOK'' \<and>
   ''Insufficient holes for weld measurement''
     \<in> set (defects (fst (process_and_save Config demo_inspector frame_three_holes ''1568'' 1 demo_time))) \<and>
   ''Excessive spatter: 0 detected''
     \<notin> set (defects (fst (process_and_save Config demo_inspector frame_three_holes ''1568'' 1 demo_time)))"
proof -
  have l: "length (detect_holes frame_three_holes) < 4" by (simp add: holes_three)
  have z: "str_nat 0 = ''0''" by (simp add: str_nat_digit digit_char_def)
  have m: "\<not> MAX_SPATTER_COUNT Config < int (detect_spatter frame_three_holes)"
    by (simp add: spatter_three Config_def)
  from process_and_save_few_holes [OF present_three l, of demo_inspector "''1568''" 1 demo_time] m
  show ?thesis using present_three l by (simp add: spatter_three z)
qed

text \<open>
  Claim C9. When the capture yields no frame, \<open>capture_and_process\<close> returns the error
  dictionary with status \<open>ERROR\<close> and message \<open>Image capture failed\<close>, which no processed
  frame returns, and leaves the inspector as it was: no counter changes, no file is
  written and no CSV row is appended.
\<close>

theorem capture_and_process_no_frame:
  "capture_and_process cfg self None part cam now =
     (Inl \<lparr>err_status = ''ERROR'', message = ''Image capture failed''\<rparr>, self) \<and>
   fst (capture_and_process cfg self None part cam now)
     \<noteq> fst (capture_and_process cfg self (Some img) part cam now)"
  by (simp add: capture_and_process_def split: prod.splits)

lemma analyse_absent_any_content:
  assumes "PART_DETECTION_THRESHOLD cfg \<le> gray_mean img"
  shows "analyse cfg (img\<lparr>hough_circles := circles, contour_areas := areas\<rparr>) part cam now
           = analyse cfg img part cam now"
proof -
  have a: "\<not> detect_part_presence img (PART_DETECTION_THRESHOLD cfg)"
    using assms by (simp add: detect_part_presence_def)
  have b: "\<not> detect_part_presence (img\<lparr>hough_circles := circles, contour_areas := areas\<rparr>)
             (PART_DETECTION_THRESHOLD cfg)"
    using assms by (simp add: detect_part_presence_def)
  show ?thesis by (simp only: analyse_absent [OF a] analyse_absent [OF b])
qed

text \<open>
  Claim C10. For a frame whose mean intensity is at or above the part-presence threshold,
  \<open>process_and_save\<close> records exactly the one defect \<open>Part Missing\<close>, leaves all twelve
  measurement values at \<open>0.0\<close> and classifies NOK; holes, seams and spatter are not looked
  at, so the outcome is the same whatever circles and contours the frame contains.
\<close>

theorem process_and_save_part_missing:
  assumes "PART_DETECTION_THRESHOLD cfg \<le> gray_mean img"
  shows "status (fst (process_and_save cfg self img part cam now)) = ''NOK'' \<and>
         defects (fst (process_and_save cfg self img part cam now)) = [''Part Missing''] \<and>
         measurements (fst (process_and_save cfg self img part cam now)) = replicate 12 (PyFloat 0) \<and>
         (\<forall>circles areas.
            process_and_save cfg self (img\<lparr>hough_circles := circles, contour_areas := areas\<rparr>)
              part cam now = process_and_save cfg self img part cam now)"
proof -
  have a: "\<not> detect_part_presence img (PART_DETECTION_THRESHOLD cfg)"
    using assms by (simp add: detect_part_presence_def)
  have "\<forall>circles areas.
     process_and_save cfg self (img\<lparr>hough_circles := circles, contour_areas := areas\<rparr>) part cam now
       = process_and_save cfg self img part cam now"
    by (simp only: process_and_save_def analyse_absent_any_content [OF assms] simp_thms)
  then show ?thesis
    by (simp add: status_process_and_save defects_process_and_save measurements_process_and_save
        analyse_absent [OF a])
qed

theorem process_and_save_part_missing_witness:
  "PART_DETECTION_THRESHOLD Config \<le> gray_mean frame_bright_with_features \<and>
   status (fst (process_and_save Config demo_inspector frame_bright_with_features ''1569'' 1 demo_time)) = ''NOK'' \<and>
   defects (fst (process_and_save Config demo_inspector frame_bright_with_features ''1569'' 1 demo_time))
     = [''Part Missing''] \<and>
   measurements (fst (process_and_save Config demo_inspector frame_bright_with_features ''1569'' 1 demo_time))
     = replicate 12 (PyFloat 0) \<and>
   length (detect_holes frame_bright_with_features) = 3 \<and>
   detect_spatter frame_bright_with_features = 7"
proof -
  have h: "PART_DETECTION_THRESHOLD Config \<le> gray_mean frame_bright_with_features"
    by (simp add: Config_def frame_bright_with_features_def)
  have c: "length (detect_holes frame_bright_with_features) = 3"
    by (simp add: detect_holes_def frame_bright_with_features_def)
  have s: "detect_spatter frame_bright_with_features = 7"
    by (simp add: detect_spatter_def frame_bright_with_features_def)
  from process_and_save_part_missing [OF h, of demo_inspector "''1569''" 1 demo_time] h c s
  show ?thesis by blast
qed

lemma list_shape4:
  "hs = [] \<or> (\<exists>a. hs = [a]) \<or> (\<exists>a b. hs = [a, b]) \<or> (\<exists>a b c. hs = [a, b, c]) \<or>
   (\<exists>a b c d rest. hs = a # b # c # d # rest)"
proof (cases hs)
  case Nil
  then show ?thesis by simp
next
  case c1: (Cons a t1)
  show ?thesis
  proof (cases t1)
    case Nil
    with c1 show ?thesis by simp
  next
    case c2: (Cons b t2)
    show ?thesis
    proof (cases t2)
      case Nil
      with c1 c2 show ?thesis by simp
    next
      case c3: (Cons c t3)
      show ?thesis
      proof (cases t3)
        case Nil
        with c1 c2 c3 show ?thesis by simp
      next
        case (Cons d rest)
        with c1 c2 c3 show ?thesis by simp
      qed
    qed
  qed
qed

lemma recorded_slots:
  assumes m0: "length m0 = 12"
  shows "length (fold record_hole (enumerate 0 (take 4 hs)) m0) = 12 \<and>
    fold record_hole (enumerate 0 (take 4 hs)) m0 ! 4 = m0 ! 4 \<and>
    fold record_hole (enumerate 0 (take 4 hs)) m0 ! 5 = m0 ! 5 \<and>
    fold record_hole (enumerate 0 (take 4 hs)) m0 ! 10 = m0 ! 10 \<and>
    fold record_hole (enumerate 0 (take 4 hs)) m0 ! 11 = m0 ! 11 \<and>
    fold record_hole (enumerate 0 (take 4 hs)) m0 ! 0 = (if 0 < length hs then PyFloat (width (hs ! 0)) else m0 ! 0) \<and>
    fold record_hole (enumerate 0 (take 4 hs)) m0 ! 1 = (if 0 < length hs then PyFloat (height (hs ! 0)) else m0 ! 1) \<and>
    fold record_hole (enumerate 0 (take 4 hs)) m0 ! 2 = (if 1 < length hs then PyFloat (width (hs ! 1)) else m0 ! 2) \<and>
    fold record_hole (enumerate 0 (take 4 hs)) m0 ! 3 = (if 1 < length hs then PyFloat (height (hs ! 1)) else m0 ! 3) \<and>
    fold record_hole (enumerate 0 (take 4 hs)) m0 ! 6 = (if 2 < length hs then PyFloat (width (hs ! 2)) else m0 ! 6) \<and>
    fold record_hole (enumerate 0 (take 4 hs)) m0 ! 7 = (if 2 < length hs then PyFloat (height (hs ! 2)) else m0 ! 7) \<and>
    fold record_hole (enumerate 0 (take 4 hs)) m0 ! 8 = (if 3 < length hs then PyFloat (width (hs ! 3)) else m0 ! 8) \<and>
    fold record_hole (enumerate 0 (take 4 hs)) m0 ! 9 = (if 3 < length hs then PyFloat (height (hs ! 3)) else m0 ! 9)"
proof -
  consider "hs = []" | a where "hs = [a]" | a b where "hs = [a, b]" | a b c where "hs = [a, b, c]"
    | a b c d rest where "hs = a # b # c # d # rest"
    using list_shape4 [of hs] by blast
  then show ?thesis
  proof cases
    case 1
    then show ?thesis using m0 by simp
  next
    case 2
    then show ?thesis using m0 by (simp add: record_hole_def nth_list_update)
  next
    case 3
    then show ?thesis using m0 by (simp add: record_hole_def nth_list_update)
  next
    case 4
    then show ?thesis using m0 by (simp add: record_hole_def nth_list_update)
  next
    case 5
    then show ?thesis using m0 by (simp add: record_hole_def nth_list_update)
  qed
qed

lemma measurements_analyse_present:
  assumes "detect_part_presence img (PART_DETECTION_THRESHOLD cfg)"
  shows "measurements (analyse cfg img part cam now) =
     (if 4 \<le> length (detect_holes img)
      then (case calculate_seam_lengths (sort_key hx (detect_holes img)) of
              (len_top, len_bottom, len_left, len_right) \<Rightarrow>
                (fold record_hole (enumerate 0 (take 4 (sort_key hx (detect_holes img))))
                   (replicate 12 (PyFloat 0)))
                  [4 := PyFloat len_top, 5 := PyFloat len_bottom,
                   10 := PyFloat len_left, 11 := PyFloat len_right])
      else fold record_hole (enumerate 0 (take 4 (sort_key hx (detect_holes img))))
             (replicate 12 (PyFloat 0)))"
  using assms
  by (simp add: analyse_def Let_def measure_seams_def record_measurements_def split: prod.splits)

text \<open>
  Claim C3. For a frame in which the part is present, the holes are sorted by ascending
  x-coordinate and the twelve slots are filled positionally: holes 0 and 1 give Value1 to
  Value4 (width, height), holes 2 and 3 give Value7 to Value10, and the seam lengths of
  \<open>calculate_seam_lengths\<close> give Value5 (top), Value6 (bottom), Value11 (left) and
  Value12 (right). The slot of a hole that was not detected stays \<open>0.0\<close>, and with fewer
  than four holes the seam slots are \<open>0.0\<close>, which is what \<open>calculate_seam_lengths\<close>
  returns then. Slot \<open>Value\<close>i is index i - 1 of the list.
\<close>

theorem process_and_save_slots:
  assumes "detect_part_presence img (PART_DETECTION_THRESHOLD cfg)"
  shows "sorted (map hx (sort_key hx (detect_holes img))) \<and>
    mset (sort_key hx (detect_holes img)) = mset (detect_holes img) \<and>
    length (measurements (fst (process_and_save cfg self img part cam now))) = 12 \<and>
    measurements (fst (process_and_save cfg self img part cam now)) ! 0 =
      (if 0 < length (detect_holes img) then PyFloat (width (sort_key hx (detect_holes img) ! 0)) else PyFloat 0) \<and>
    measurements (fst (process_and_save cfg self img part cam now)) ! 1 =
      (if 0 < length (detect_holes img) then PyFloat (height (sort_key hx (detect_holes img) ! 0)) else PyFloat 0) \<and>
    measurements (fst (process_and_save cfg self img part cam now)) ! 2 =
      (if 1 < length (detect_holes img) then PyFloat (width (sort_key hx (detect_holes img) ! 1)) else PyFloat 0) \<and>
    measurements (fst (process_and_save cfg self img part cam now)) ! 3 =
      (if 1 < length (detect_holes img) then PyFloat (height (sort_key hx (detect_holes img) ! 1)) else PyFloat 0) \<and>
    measurements (fst (process_and_save cfg self img part cam now)) ! 6 =
      (if 2 < length (detect_holes img) then PyFloat (width (sort_key hx (detect_holes img) ! 2)) else PyFloat 0) \<and>
    measurements (fst (process_and_save cfg self img part cam now)) ! 7 =
      (if 2 < length (detect_holes img) then PyFloat (height (sort_key hx (detect_holes img) ! 2)) else PyFloat 0) \<and>
    measurements (fst (process_and_save cfg self img part cam now)) ! 8 =
      (if 3 < length (detect_holes img) then PyFloat (width (sort_key hx (detect_holes img) ! 3)) else PyFloat 0) \<and>
    measurements (fst (process_and_save cfg self img part cam now)) ! 9 =
      (if 3 < length (detect_holes img) then PyFloat (height (sort_key hx (detect_holes img) ! 3)) else PyFloat 0) \<and>
    measurements (fst (process_and_save cfg self img part cam now)) ! 4 =
      PyFloat (fst (calculate_seam_lengths (sort_key hx (detect_holes img)))) \<and>
    measurements (fst (process_and_save cfg self img part cam now)) ! 5 =
      PyFloat (fst (snd (calculate_seam_lengths (sort_key hx (detect_holes img))))) \<and>
    measurements (fst (process_and_save cfg self img part cam now)) ! 10 =
      PyFloat (fst (snd (snd (calculate_seam_lengths (sort_key hx (detect_holes img)))))) \<and>
    measurements (fst (process_and_save cfg self img part cam now)) ! 11 =
      PyFloat (snd (snd (snd (calculate_seam_lengths (sort_key hx (detect_holes img))))))"
proof -
  let ?hs = "sort_key hx (detect_holes img)"
  let ?m1 = "fold record_hole (enumerate 0 (take 4 ?hs)) (replicate 12 (PyFloat 0))"
  have len: "length ?hs = length (detect_holes img)" by simp
  note r = recorded_slots [of "replicate 12 (PyFloat 0)" ?hs, simplified, unfolded len]
  have l1: "length ?m1 = 12" using r by blast
  show ?thesis
  proof (cases "4 \<le> length (detect_holes img)")
    case True
    obtain a b c d where s: "calculate_seam_lengths ?hs = (a, b, c, d)"
      by (cases "calculate_seam_lengths ?hs") auto
    have m: "measurements (fst (process_and_save cfg self img part cam now)) =
        ?m1[4 := PyFloat a, 5 := PyFloat b, 10 := PyFloat c, 11 := PyFloat d]"
      using True by (simp add: measurements_process_and_save measurements_analyse_present [OF assms] s)
    show ?thesis
      unfolding m s using True r l1 by (simp add: nth_list_update)
  next
    case False
    then have z: "calculate_seam_lengths ?hs = (0, 0, 0, 0)"
      by (simp add: calculate_seam_lengths_def)
    have m: "measurements (fst (process_and_save cfg self img part cam now)) = ?m1"
      using False by (simp add: measurements_process_and_save measurements_analyse_present [OF assms])
    show ?thesis
      unfolding m z using False r l1 by simp
  qed
qed

lemma sorted_good:
  "sort_key hx (detect_holes frame_good) =
     [((170, 136), 40, 40), ((170, 264), 44, 44), ((430, 264), 46, 46), ((430, 136), 42, 42)]"
  by (simp add: detect_holes_def frame_good_def hx_def)

lemma seams_good:
  "calculate_seam_lengths
     [((170, 136), 40, 40), ((170, 264), 44, 44), ((430, 264), 46, 46), ((430, 136), 42, 42)]
   = (219, 215, 86, 84)"
proof -
  let ?hs = "[((170, 136), 40, 40), ((170, 264), 44, 44), ((430, 264), 46, 46), ((430, 136), 42, 42)] :: hole list"
  have t: "top_row ?hs = [((170, 136), 40, 40), ((430, 136), 42, 42)]"
    by (simp add: top_row_def hx_def hy_def)
  have b: "bottom_row ?hs = [((170, 264), 44, 44), ((430, 264), 46, 46)]"
    by (simp add: bottom_row_def hx_def hy_def)
  have d1: "distance (170, 136) (430, 136) = 260" by (simp add: distance_horizontal)
  have d2: "distance (170, 264) (430, 264) = 260" by (simp add: distance_horizontal)
  have d3: "distance (170, 136) (170, 264) = 128" by (simp add: distance_vertical)
  have d4: "distance (430, 136) (430, 264) = 128" by (simp add: distance_vertical)
  show ?thesis
    by (simp add: calculate_seam_lengths_def t b centre_def width_def d1 d2 d3 d4 Let_def)
qed

theorem process_and_save_slots_witness:
  "detect_part_presence frame_good (PART_DETECTION_THRESHOLD Config) \<and>
   hough_circles frame_good = Some [(430, 264, 23), (170, 136, 20), (430, 136, 21), (170, 264, 22)] \<and>
   map (\<lambda>i. measurements (fst (process_and_save Config demo_inspector frame_good ''1568'' 1 demo_time)) ! i)
     [0, 1, 2, 3, 4, 5, 6, 7, 8, 9, 10, 11] =
     [PyFloat 40, PyFloat 40, PyFloat 44, PyFloat 44, PyFloat 219, PyFloat 215,
      PyFloat 46, PyFloat 46, PyFloat 42, PyFloat 42, PyFloat 86, PyFloat 84]"
proof -
  have g: "detect_part_presence frame_good (PART_DETECTION_THRESHOLD Config)"
    by (simp add: detect_part_presence_def frame_good_def Config_def)
  have c: "hough_circles frame_good = Some [(430, 264, 23), (170, 136, 20), (430, 136, 21), (170, 264, 22)]"
    by (simp add: frame_good_def)
  have l: "length (detect_holes frame_good) = 4"
    by (simp add: detect_holes_def frame_good_def)
  note t = process_and_save_slots [OF g, of demo_inspector "''1568''" 1 demo_time,
      unfolded sorted_good seams_good l]
  from t have "map (\<lambda>i. measurements (fst (process_and_save Config demo_inspector frame_good ''1568'' 1 demo_time)) ! i)
     [0, 1, 2, 3, 4, 5, 6, 7, 8, 9, 10, 11] =
     [PyFloat 40, PyFloat 40, PyFloat 44, PyFloat 44, PyFloat 219, PyFloat 215,
      PyFloat 46, PyFloat 46, PyFloat 42, PyFloat 42, PyFloat 86, PyFloat 84]"
    by (simp add: width_def height_def)
  with g c show ?thesis by (simp only: simp_thms)
qed

section \<open>Properties of the counters\<close>

lemma counters_step:
  "(ok_counter (snd (process_and_save cfg self img part cam now)) = ok_counter self + 1 \<and>
    nok_counter (snd (process_and_save cfg self img part cam now)) = nok_counter self) \<or>
   (ok_counter (snd (process_and_save cfg self img part cam now)) = ok_counter self \<and>
    nok_counter (snd (process_and_save cfg self img part cam now)) = nok_counter self + 1)"
  by (simp add: counters_process_and_save)

lemma process_all_Cons:
  "fst (process_all cfg self ((img, part, cam, now) # calls)) =
     fst (process_and_save cfg self img part cam now)
       # fst (process_all cfg (snd (process_and_save cfg self img part cam now)) calls) \<and>
   snd (process_all cfg self ((img, part, cam, now) # calls)) =
     snd (process_all cfg (snd (process_and_save cfg self img part cam now)) calls)"
  by (simp split: prod.splits)

lemma process_all_statuses:
  "map status (fst (process_all cfg self calls)) =
     map (\<lambda>(img, part, cam, now). status (analyse cfg img part cam now)) calls"
proof (induction calls arbitrary: self)
  case Nil
  then show ?case by simp
next
  case (Cons call calls)
  obtain img part cam now where c: "call = (img, part, cam, now)" by (cases call) auto
  show ?case
    unfolding c
    by (simp only: process_all_Cons list.map Cons.IH status_process_and_save prod.case)
qed

lemma process_all_counters:
  "ok_counter (snd (process_all cfg self calls)) =
     ok_counter self +
       length (filter (\<lambda>(img, part, cam, now). status (analyse cfg img part cam now) = ''OK'') calls) \<and>
   nok_counter (snd (process_all cfg self calls)) =
     nok_counter self +
       length (filter (\<lambda>(img, part, cam, now). status (analyse cfg img part cam now) \<noteq> ''OK'') calls)"
proof (induction calls arbitrary: self)
  case Nil
  then show ?case by simp
next
  case (Cons call calls)
  obtain img part cam now where c: "call = (img, part, cam, now)" by (cases call) auto
  have s: "snd (process_all cfg self (call # calls)) =
      snd (process_all cfg (snd (process_and_save cfg self img part cam now)) calls)"
    unfolding c by (simp only: process_all_Cons)
  show ?case
    unfolding s
    by (simp add: Cons.IH counters_process_and_save c)
qed

lemma length_process_all: "length (fst (process_all cfg self calls)) = length calls"
proof -
  have "length (map status (fst (process_all cfg self calls))) = length calls"
    by (simp only: process_all_statuses length_map)
  then show ?thesis by simp
qed

lemma nok_results:
  "length (filter (\<lambda>r. status r = ''NOK'') (fst (process_all cfg self calls))) =
   length (filter (\<lambda>(img, part, cam, now). status (analyse cfg img part cam now) \<noteq> ''OK'') calls)"
proof -
  have "length (filter (\<lambda>r. status r = ''NOK'') (fst (process_all cfg self calls))) =
      length (filter (\<lambda>s. s = ''NOK'') (map status (fst (process_all cfg self calls))))"
    by (simp add: filter_map o_def)
  also have "\<dots> = length (filter (\<lambda>s. s = ''NOK'')
      (map (\<lambda>(img, part, cam, now). status (analyse cfg img part cam now)) calls))"
    by (simp only: process_all_statuses)
  also have "\<dots> = length (filter (\<lambda>(img, part, cam, now). status (analyse cfg img part cam now) = ''NOK'') calls)"
    by (simp add: filter_map o_def split_def)
  also have "\<dots> = length (filter (\<lambda>(img, part, cam, now). status (analyse cfg img part cam now) \<noteq> ''OK'') calls)"
  proof -
    have "\<And>img part cam now. (status (analyse cfg img part cam now) = ''NOK'')
        = (status (analyse cfg img part cam now) \<noteq> ''OK'')"
      using status_analyse_cases by fastforce
    then show ?thesis by (simp add: split_def)
  qed
  finally show ?thesis .
qed

lemma ok_plus_nok:
  "length (filter (\<lambda>(img, part, cam, now). status (analyse cfg img part cam now) = ''OK'') calls) +
   length (filter (\<lambda>(img, part, cam, now). status (analyse cfg img part cam now) \<noteq> ''OK'') calls)
     = length calls"
  using sum_length_filter_compl [of "\<lambda>(img, part, cam, now). status (analyse cfg img part cam now) = ''OK''" calls]
  by (simp add: split_def)

lemma counters_permutation:
  assumes "mset calls' = mset calls"
  shows "ok_counter (snd (process_all cfg self calls')) = ok_counter (snd (process_all cfg self calls)) \<and>
         nok_counter (snd (process_all cfg self calls')) = nok_counter (snd (process_all cfg self calls))"
proof -
  have "\<And>P. length (filter P calls') = length (filter P calls)"
  proof -
    fix P :: "frame \<times> string \<times> int \<times> datetime \<Rightarrow> bool"
    have "mset (filter P calls') = mset (filter P calls)"
      using assms by (simp only: mset_filter)
    then show "length (filter P calls') = length (filter P calls)"
      by (metis size_mset)
  qed
  then show ?thesis by (simp only: process_all_counters)
qed

text \<open>
  Claim C2. Over a session of N calls of which k return status NOK, the NOK counter grows
  by k and the OK counter by N - k, so a fresh session (both counters 0) ends with
  \<open>ok_counter = N - k\<close> and \<open>nok_counter = k\<close>; the counters do not depend on the order of
  the calls; and every call adds exactly 1 to exactly one of the two counters, so neither
  ever decreases.
\<close>

theorem process_all_counts:
  "length (fst (process_all cfg self calls)) = length calls \<and>
   nok_counter (snd (process_all cfg self calls)) =
     nok_counter self + length (filter (\<lambda>r. status r = ''NOK'') (fst (process_all cfg self calls))) \<and>
   ok_counter (snd (process_all cfg self calls)) =
     ok_counter self +
       (length calls - length (filter (\<lambda>r. status r = ''NOK'') (fst (process_all cfg self calls)))) \<and>
   (\<forall>calls'. mset calls' = mset calls \<longrightarrow>
      ok_counter (snd (process_all cfg self calls')) = ok_counter (snd (process_all cfg self calls)) \<and>
      nok_counter (snd (process_all cfg self calls')) = nok_counter (snd (process_all cfg self calls))) \<and>
   (\<forall>img part cam now.
      (ok_counter (snd (process_and_save cfg self img part cam now)) = ok_counter self + 1 \<and>
       nok_counter (snd (process_and_save cfg self img part cam now)) = nok_counter self) \<or>
      (ok_counter (snd (process_and_save cfg self img part cam now)) = ok_counter self \<and>
       nok_counter (snd (process_and_save cfg self img part cam now)) = nok_counter self + 1))"
proof -
  have a: "nok_counter (snd (process_all cfg self calls)) =
     nok_counter self + length (filter (\<lambda>r. status r = ''NOK'') (fst (process_all cfg self calls)))"
    by (simp only: nok_results process_all_counters)
  have b: "ok_counter (snd (process_all cfg self calls)) =
     ok_counter self +
       (length calls - length (filter (\<lambda>r. status r = ''NOK'') (fst (process_all cfg self calls))))"
    using ok_plus_nok [of cfg calls] by (simp add: nok_results process_all_counters)
  from a b length_process_all [of cfg self calls] counters_permutation [of _ calls cfg self]
    counters_step [of cfg self]
  show ?thesis by blast
qed

lemma demo_statuses:
  "map status (fst (process_all Config demo_inspector demo_calls)) = [''OK'', ''NOK'', ''NOK'']"
proof -
  have g: "detect_part_presence frame_good (PART_DETECTION_THRESHOLD Config)"
    by (simp add: detect_part_presence_def frame_good_def Config_def)
  have b: "\<not> detect_part_presence frame_bright_with_features (PART_DETECTION_THRESHOLD Config)"
    by (simp add: detect_part_presence_def frame_bright_with_features_def Config_def)
  have gh: "length (detect_holes frame_good) = 4"
    by (simp add: detect_holes_def frame_good_def)
  have gs: "detect_spatter frame_good = 0"
    by (simp add: detect_spatter_def frame_good_def)
  have gm: "MAX_SPATTER_COUNT Config = 5" by (simp add: Config_def)
  have g1: "status (analyse Config frame_good ''1568'' 1 demo_time) = ''OK''"
    by (simp add: status_analyse_present [OF g] gh gs gm)
  have b1: "status (analyse Config frame_bright_with_features ''1569'' 1 demo_time) = ''NOK''"
    by (simp add: analyse_absent [OF b])
  have t1: "status (analyse Config frame_three_holes ''1571'' 1 demo_time) = ''NOK''"
    by (simp add: status_analyse_present [OF present_three] holes_three)
  have "map status (fst (process_all Config demo_inspector demo_calls)) =
      map (\<lambda>(img, part, cam, now). status (analyse Config img part cam now)) demo_calls"
    by (rule process_all_statuses)
  also have "\<dots> = [''OK'', ''NOK'', ''NOK'']"
    by (simp add: demo_calls_def g1 b1 t1)
  finally show ?thesis .
qed

theorem process_all_counts_witness:
  "ok_counter demo_inspector = 0 \<and> nok_counter demo_inspector = 0 \<and>
   length demo_calls = 3 \<and>
   length (filter (\<lambda>r. status r = ''NOK'') (fst (process_all Config demo_inspector demo_calls))) = 2 \<and>
   ok_counter (snd (process_all Config demo_inspector demo_calls)) = 1 \<and>
   nok_counter (snd (process_all Config demo_inspector demo_calls)) = 2 \<and>
   mset (rev demo_calls) = mset demo_calls \<and>
   ok_counter (snd (process_all Config demo_inspector (rev demo_calls))) = 1 \<and>
   nok_counter (snd (process_all Config demo_inspector (rev demo_calls))) = 2"
proof -
  have z: "ok_counter demo_inspector = 0" "nok_counter demo_inspector = 0"
    by (simp_all add: demo_inspector_def Inspector_init_def Let_def)
  have n: "length demo_calls = 3" by (simp add: demo_calls_def)
  have "length (filter (\<lambda>r. status r = ''NOK'') (fst (process_all Config demo_inspector demo_calls)))
      = length (filter (\<lambda>s. s = ''NOK'') (map status (fst (process_all Config demo_inspector demo_calls))))"
    by (simp add: filter_map o_def)
  then have k: "length (filter (\<lambda>r. status r = ''NOK'') (fst (process_all Config demo_inspector demo_calls))) = 2"
    by (simp add: demo_statuses)
  have p: "mset (rev demo_calls) = mset demo_calls" by simp
  note t = process_all_counts [of Config demo_inspector demo_calls]
  from t have a: "nok_counter (snd (process_all Config demo_inspector demo_calls)) = 2"
    by (simp add: z k)
  from t have b: "ok_counter (snd (process_all Config demo_inspector demo_calls)) = 1"
    by (simp add: z k n)
  from t p have c: "ok_counter (snd (process_all Config demo_inspector (rev demo_calls)))
        = ok_counter (snd (process_all Config demo_inspector demo_calls)) \<and>
      nok_counter (snd (process_all Config demo_inspector (rev demo_calls)))
        = nok_counter (snd (process_all Config demo_inspector demo_calls))"
    by blast
  from z n k a b p c show ?thesis by (simp only: simp_thms)
qed

section \<open>Properties of the CSV record\<close>

text \<open>
  Rounding to two decimal places gives a multiple of \<open>0.01\<close> at most \<open>0.005\<close> away from the
  value.
\<close>

lemma round_half_even_error: "\<bar>of_int (round_half_even y) - y\<bar> \<le> 1 / 2"
proof -
  define f where "f = \<lfloor>y\<rfloor>"
  have a: "of_int f \<le> y" unfolding f_def by simp
  have b: "y < of_int f + 1" unfolding f_def by linarith
  have r: "round_half_even y =
      (if y - of_int f < 1 / 2 then f else if 1 / 2 < y - of_int f then f + 1
       else if even f then f else f + 1)"
    by (simp add: round_half_even_def Let_def f_def)
  show ?thesis
  proof (cases "y - of_int f < 1 / 2")
    case True
    with r have "round_half_even y = f" by simp
    with a True show ?thesis by simp
  next
    case False
    show ?thesis
    proof (cases "1 / 2 < y - of_int f")
      case True
      with r False have "round_half_even y = f + 1" by simp
      with b True show ?thesis by simp
    next
      case h: False
      with False have e: "y - of_int f = 1 / 2" by simp
      from r False h have "round_half_even y = f \<or> round_half_even y = f + 1" by simp
      with e show ?thesis by auto
    qed
  qed
qed

lemma py_round_2_error: "\<bar>py_round x 2 - x\<bar> \<le> 1 / 200"
proof -
  have "\<bar>of_int (round_half_even (x * 100)) - x * 100\<bar> \<le> 1 / 2"
    by (rule round_half_even_error)
  then have "\<bar>of_int (round_half_even (x * 100)) / 100 - x\<bar> \<le> 1 / 200"
    by (simp add: abs_if field_simps split: if_splits)
  then show ?thesis by (simp add: py_round_def)
qed

lemma py_round_2_grid: "\<exists>n::int. py_round x 2 = of_int n / 100"
  by (auto simp: py_round_def)

text \<open>
  What \<open>_save_to_csv\<close> stores for a measurement value, and when it raises. A call of
  \<open>process_and_save\<close> hands it only values that \<open>float\<close> accepts as finite numbers, so there
  the one exception that can reach the caller is that of \<open>pd.read_csv\<close>. When
  \<open>pd.read_csv\<close> gives back the stored rows as they are, the call keeps them and adds one
  row, numbered with the previous row count plus 1.
\<close>

lemma row_value_simps:
  "row_value (PyFloat x) = Inr (Finite (py_round x 2))"
  "row_value PyNan = Inr NaN"
  "row_value (PyInf positive) = Inr (Inf positive)"
  "row_value (PyRaises ValueError) = Inr (Finite 0)"
  "row_value (PyRaises TypeError) = Inr (Finite 0)"
  "row_value (PyRaises OverflowError) = Inl OverflowError"
  by (simp_all add: row_value_def py_float_def py_round_float_def)

lemma py_round_zero: "py_round 0 2 = 0"
  by (simp add: py_round_def round_half_even_def Let_def)

lemma row_values_floats:
  "row_values (map PyFloat xs) = Inr (map (\<lambda>x. Finite (py_round x 2)) xs)"
  by (induction xs) (simp_all add: row_value_simps)

lemma row_values_accepted:
  "list_all float_accepts vals \<Longrightarrow> \<exists>vs. row_values vals = Inr vs"
proof (induction vals)
  case Nil
  then show ?case by simp
next
  case (Cons v vals)
  then obtain x where "v = PyFloat x"
    by (cases v) (simp_all add: float_accepts_def)
  with Cons show ?case by (auto simp add: row_value_simps)
qed

lemma record_hole_accepted:
  "list_all float_accepts m \<Longrightarrow> list_all float_accepts (record_hole ih m)"
proof -
  have u: "list_all float_accepts (xs[i := PyFloat x])" if "list_all float_accepts xs" for xs i x
    using that set_update_subset_insert [of xs i "PyFloat x"]
    by (auto simp add: list_all_iff float_accepts_def)
  assume "list_all float_accepts m"
  then show ?thesis by (simp add: record_hole_def Let_def u)
qed

lemma fold_record_hole_accepted:
  "list_all float_accepts m \<Longrightarrow> list_all float_accepts (fold record_hole ihs m)"
  by (induction ihs arbitrary: m) (simp_all add: record_hole_accepted)

lemma analyse_accepted: "list_all float_accepts (measurements (analyse cfg img part cam now))"
proof -
  have u: "list_all float_accepts (xs[i := PyFloat x])" if "list_all float_accepts xs" for xs i x
    using that set_update_subset_insert [of xs i "PyFloat x"]
    by (auto simp add: list_all_iff float_accepts_def)
  have r: "list_all float_accepts (replicate 12 (PyFloat 0))"
    by (simp add: list_all_iff float_accepts_def)
  have f: "list_all float_accepts (fold record_hole ihs (replicate 12 (PyFloat 0)))" for ihs
    by (rule fold_record_hole_accepted [OF r])
  show ?thesis
    by (simp add: analyse_def Let_def check_spatter_def measure_seams_def check_missing_holes_def
        record_measurements_def r f u split: prod.splits)
qed

lemma save_to_csv_read_error:
  "pd_read_csv self (csv_rows self) = Inl e \<Longrightarrow> save_to_csv self res counter_val = Inl e"
  by (simp add: save_to_csv_def)

lemma save_to_csv_value_error:
  "pd_read_csv self (csv_rows self) = Inr df_existing \<Longrightarrow> row_values (measurements res) = Inl e \<Longrightarrow>
   save_to_csv self res counter_val = Inl e"
  by (simp add: save_to_csv_def)

lemma save_to_csv_returns:
  "pd_read_csv self (csv_rows self) = Inr df_existing \<Longrightarrow> row_values (measurements res) = Inr vals \<Longrightarrow>
   save_to_csv self res counter_val =
     Inr (self\<lparr>csv_rows := df_existing @
           [\<lparr>Number = length df_existing + 1, OK_NOK = status res,
             Ordernumber = order_number self, Counter = counter_val,
             Date = fst (timestamp res), Time = snd (timestamp res),
             Values = vals, User = user self\<rparr>]\<rparr>)"
  by (simp add: save_to_csv_def)

lemma timestamp_analyse: "timestamp (analyse cfg img part cam now) = now"
  by (simp add: analyse_def Let_def check_spatter_def measure_seams_def check_missing_holes_def
      record_measurements_def split: prod.splits)

lemma process_and_save_raises_read_error:
  "process_and_save_raises cfg self img part cam now = Some e \<Longrightarrow>
   pd_read_csv self (csv_rows self) = Inl e"
proof -
  obtain vs where vs: "row_values (measurements (analyse cfg img part cam now)) = Inr vs"
    using row_values_accepted [OF analyse_accepted] by blast
  assume "process_and_save_raises cfg self img part cam now = Some e"
  then show ?thesis
    by (auto simp add: process_and_save_raises_def Let_def save_to_csv_def vs
        split: sum.splits if_splits)
qed

lemma process_and_save_csv_rows:
  assumes r: "pd_read_csv self (csv_rows self) = Inr df_existing"
    and v: "row_values (measurements (analyse cfg img part cam now)) = Inr vals"
  shows "process_and_save_raises cfg self img part cam now = None \<and>
    user (snd (process_and_save cfg self img part cam now)) = user self \<and>
    order_number (snd (process_and_save cfg self img part cam now)) = order_number self \<and>
    pd_read_csv (snd (process_and_save cfg self img part cam now)) = pd_read_csv self \<and>
    csv_rows (snd (process_and_save cfg self img part cam now)) =
      df_existing @
        [\<lparr>Number = length df_existing + 1, OK_NOK = status (analyse cfg img part cam now),
          Ordernumber = order_number self,
          Counter = (if status (analyse cfg img part cam now) = ''OK'' then ok_counter self + 1
                     else nok_counter self + 1),
          Date = fst now, Time = snd now, Values = vals, User = user self\<rparr>]"
  using r v
  by (simp add: process_and_save_def process_and_save_raises_def Let_def save_to_csv_def
      timestamp_analyse)


lemma row_values_nth:
  "row_values vals = Inr vs \<Longrightarrow>
   length vs = length vals \<and> (\<forall>i < length vals. row_value (vals ! i) = Inr (vs ! i))"
proof (induction vals arbitrary: vs)
  case Nil
  then show ?case by simp
next
  case (Cons v vals)
  from Cons.prems obtain w ws where w: "row_value v = Inr w" and ws: "row_values vals = Inr ws"
    and vs: "vs = w # ws"
    by (auto split: sum.splits)
  from Cons.IH [OF ws] w vs show ?case
    by (auto simp add: nth_Cons split: nat.splits)
qed

lemma save_to_csv_appends_when_read_back:
  assumes r: "pd_read_csv self (csv_rows self) = Inr (csv_rows self)"
    and v: "row_values (measurements res) = Inr vals"
  shows "\<exists>self'. save_to_csv self res counter_val = Inr self' \<and>
    take (length (csv_rows self)) (csv_rows self') = csv_rows self \<and>
    length (csv_rows self') = length (csv_rows self) + 1 \<and>
    Number (last (csv_rows self')) = length (csv_rows self) + 1 \<and>
    Values (last (csv_rows self')) = vals"
  using save_to_csv_returns [OF r v, of counter_val] by simp

text \<open>
  The session of user \<open>NA\<close> on order \<open>007\<close>, evaluated.
\<close>

lemma absent_empty_fixture:
  "\<not> detect_part_presence frame_empty_fixture (PART_DETECTION_THRESHOLD Config)"
  by (simp add: detect_part_presence_def frame_empty_fixture_def Config_def)

lemma analyse_empty_fixture:
  "analyse Config frame_empty_fixture part cam now =
     \<lparr>part_number = part, cam_id = cam, status = ''NOK'',
      measurements = replicate 12 (PyFloat 0), defects = [''Part Missing''],
      timestamp = now, image_path = []\<rparr>"
  by (rule analyse_absent [OF absent_empty_fixture])

lemma status_empty_fixture: "status (analyse Config frame_empty_fixture part cam now) = ''NOK''"
  by (simp only: analyse_empty_fixture result.simps)

lemma demo_time_parts: "fst demo_time = ''2024-01-01''" "snd demo_time = ''10:00:00''"
  by (simp_all add: demo_time_def)

lemma row_values_zeros: "row_values (replicate 12 (PyFloat 0)) = Inr (replicate 12 (Finite 0))"
proof -
  have "replicate 12 (PyFloat 0) = map PyFloat (replicate 12 0)" by simp
  then have "row_values (replicate 12 (PyFloat 0)) = row_values (map PyFloat (replicate 12 0))"
    by (simp only:)
  also have "\<dots> = Inr (map (\<lambda>x. Finite (py_round x 2)) (replicate 12 0))"
    by (rule row_values_floats)
  also have "\<dots> = Inr (replicate 12 (Finite 0))" by (simp add: py_round_zero)
  finally show ?thesis .
qed

lemma na_inspector_fields:
  "user na_inspector = ''NA''" "order_number na_inspector = ''007''"
  "ok_counter na_inspector = 0" "nok_counter na_inspector = 0"
  "csv_rows na_inspector = []" "pd_read_csv na_inspector = example_read_csv"
  by (simp_all add: na_inspector_def Inspector_init_def Let_def)

lemma is_digits_007: "is_digits ''007''"
  by (simp add: is_digits_def)

lemma strip_zeros_007: "strip_zeros ''007'' = ''7''"
  by (simp add: strip_zeros_def)

lemma na_first_fields:
  "process_and_save_raises Config na_inspector frame_empty_fixture ''1568'' 1 demo_time = None"
  "user na_first = ''NA''" "order_number na_first = ''007''" "nok_counter na_first = 1"
  "pd_read_csv na_first = example_read_csv"
  "csv_rows na_first =
     [\<lparr>Number = 1, OK_NOK = ''NOK'', Ordernumber = ''007'', Counter = 1, Date = ''2024-01-01'',
       Time = ''10:00:00'', Values = replicate 12 (Finite 0), User = ''NA''\<rparr>]"
proof -
  have r: "pd_read_csv na_inspector (csv_rows na_inspector) = Inr []"
    by (simp add: na_inspector_fields example_read_csv_def)
  have v: "row_values (measurements (analyse Config frame_empty_fixture ''1568'' 1 demo_time))
      = Inr (replicate 12 (Finite 0))"
    by (simp only: analyse_empty_fixture result.simps row_values_zeros)
  note s = status_empty_fixture
  note t = process_and_save_csv_rows [OF r v]
  from t show "process_and_save_raises Config na_inspector frame_empty_fixture ''1568'' 1 demo_time = None"
    by blast
  from t show "user na_first = ''NA''" by (simp add: na_first_def na_inspector_fields)
  from t show "order_number na_first = ''007''" by (simp add: na_first_def na_inspector_fields)
  from t show "pd_read_csv na_first = example_read_csv" by (simp add: na_first_def na_inspector_fields)
  from counters_process_and_save [of Config na_inspector frame_empty_fixture "''1568''" 1 demo_time]
  show "nok_counter na_first = 1" by (simp add: na_first_def na_inspector_fields s)
  from t show "csv_rows na_first =
     [\<lparr>Number = 1, OK_NOK = ''NOK'', Ordernumber = ''007'', Counter = 1, Date = ''2024-01-01'',
       Time = ''10:00:00'', Values = replicate 12 (Finite 0), User = ''NA''\<rparr>]"
    by (simp add: na_first_def na_inspector_fields s demo_time_parts)
qed

lemma read_na_first:
  "pd_read_csv na_first (csv_rows na_first) =
     Inr [\<lparr>Number = 1, OK_NOK = ''NOK'', Ordernumber = ''7'', Counter = 1, Date = ''2024-01-01'',
           Time = ''10:00:00'', Values = replicate 12 (Finite 0), User = []\<rparr>]"
  by (simp add: na_first_fields example_read_csv_def is_digits_007 strip_zeros_007)

text \<open>
  Claim C6. The claim states that every call of the CSV-append operation leaves all
  previously written rows unchanged. \<open>_save_to_csv\<close> does not append to the file: it reads
  the whole file with \<open>pd.read_csv\<close>, which infers the column types anew, and writes every
  row back. In the session \<open>Inspector(user='NA', order_number='007', output_dir='.')\<close>
  both calls of \<open>process_and_save\<close> return; after the first the file holds one row with
  order number \<open>007\<close> and user \<open>NA\<close>; after the second that row has order number \<open>7\<close> and
  an empty user, so the first row of the file is no longer the row that was written.
\<close>

theorem save_to_csv_rewrites_earlier_rows:
  "process_and_save_raises Config na_inspector frame_empty_fixture ''1568'' 1 demo_time = None \<and>
   process_and_save_raises Config na_first frame_empty_fixture ''1568'' 1 demo_time = None \<and>
   csv_rows na_first =
     [\<lparr>Number = 1, OK_NOK = ''NOK'', Ordernumber = ''007'', Counter = 1, Date = ''2024-01-01'',
       Time = ''10:00:00'', Values = replicate 12 (Finite 0), User = ''NA''\<rparr>] \<and>
   csv_rows na_second =
     [\<lparr>Number = 1, OK_NOK = ''NOK'', Ordernumber = ''7'', Counter = 1, Date = ''2024-01-01'',
       Time = ''10:00:00'', Values = replicate 12 (Finite 0), User = []\<rparr>,
      \<lparr>Number = 2, OK_NOK = ''NOK'', Ordernumber = ''007'', Counter = 2, Date = ''2024-01-01'',
       Time = ''10:00:00'', Values = replicate 12 (Finite 0), User = ''NA''\<rparr>] \<and>
   take (length (csv_rows na_first)) (csv_rows na_second) \<noteq> csv_rows na_first"
proof -
  have v: "row_values (measurements (analyse Config frame_empty_fixture ''1568'' 1 demo_time))
      = Inr (replicate 12 (Finite 0))"
    by (simp only: analyse_empty_fixture result.simps row_values_zeros)
  note s = status_empty_fixture
  note t = process_and_save_csv_rows [OF read_na_first v]
  from t have a: "process_and_save_raises Config na_first frame_empty_fixture ''1568'' 1 demo_time = None"
    by blast
  from t have b: "csv_rows na_second =
     [\<lparr>Number = 1, OK_NOK = ''NOK'', Ordernumber = ''7'', Counter = 1, Date = ''2024-01-01'',
       Time = ''10:00:00'', Values = replicate 12 (Finite 0), User = []\<rparr>,
      \<lparr>Number = 2, OK_NOK = ''NOK'', Ordernumber = ''007'', Counter = 2, Date = ''2024-01-01'',
       Time = ''10:00:00'', Values = replicate 12 (Finite 0), User = ''NA''\<rparr>]"
    by (simp add: na_second_def na_first_fields(2-5) s demo_time_parts)
  have c: "take (length (csv_rows na_first)) (csv_rows na_second) \<noteq> csv_rows na_first"
    unfolding b na_first_fields(6) by simp
  from na_first_fields(1) a na_first_fields(6) b c show ?thesis by (simp only: simp_thms)
qed

text \<open>
  Called directly with a result whose measurements hold \<open>nan\<close> and \<open>inf\<close>, \<open>_save_to_csv\<close>
  stores them as they are, not as \<open>0.0\<close>; with an int too large for a float it raises
  \<open>OverflowError\<close>, which its handler does not catch, and no row is written.
\<close>

lemma py_round_pi: "py_round 3.14159 2 = 3.14"
  by (simp add: py_round_def round_half_even_def Let_def)

lemma py_round_neg: "py_round (- 0.126) 2 = - 0.13"
  by (simp add: py_round_def round_half_even_def Let_def)

lemma demo_inspector_fields:
  "csv_rows demo_inspector = []" "pd_read_csv demo_inspector = example_read_csv"
  by (simp_all add: demo_inspector_def Inspector_init_def Let_def)

lemma row_values_demo_result:
  "row_values (measurements demo_result) =
     Inr [Finite 3.14, Finite 0, Finite (- 0.13), Finite 0, NaN, Inf True,
          Finite 0, Finite 0, Finite 0, Finite 0, Finite 0, Finite 0]"
proof -
  have "row_values (measurements demo_result) =
     Inr [Finite (py_round 3.14159 2), Finite 0, Finite (py_round (- 0.126) 2), Finite 0, NaN, Inf True,
          Finite (py_round 0 2), Finite (py_round 0 2), Finite (py_round 0 2),
          Finite (py_round 0 2), Finite (py_round 0 2), Finite (py_round 0 2)]"
    unfolding demo_result_def result.simps row_values.simps row_value_simps
    by (simp only: sum.case)
  then show ?thesis by (simp only: py_round_pi py_round_neg py_round_zero)
qed

lemma save_to_csv_nan_inf_overflow:
  "map Values (csv_rows (projr (save_to_csv demo_inspector demo_result 1))) =
     [[Finite 3.14, Finite 0, Finite (- 0.13), Finite 0, NaN, Inf True,
       Finite 0, Finite 0, Finite 0, Finite 0, Finite 0, Finite 0]] \<and>
   save_to_csv demo_inspector overflow_result 1 = Inl OverflowError"
proof -
  have r: "pd_read_csv demo_inspector (csv_rows demo_inspector) = Inr []"
    by (simp add: demo_inspector_fields example_read_csv_def)
  have a: "map Values (csv_rows (projr (save_to_csv demo_inspector demo_result 1))) =
     [[Finite 3.14, Finite 0, Finite (- 0.13), Finite 0, NaN, Inf True,
       Finite 0, Finite 0, Finite 0, Finite 0, Finite 0, Finite 0]]"
    by (simp add: save_to_csv_returns [OF r row_values_demo_result])
  have "row_values (measurements overflow_result) = Inl OverflowError"
    by (simp add: overflow_result_def demo_result_def row_value_simps)
  from save_to_csv_value_error [OF r this] a show ?thesis by simp
qed

end
